theory Spec2Isabelle
  imports Main "HOL-Library.Word"
begin

section \<open>Shared types of package \<open>types\<close>\<close>

text \<open>A \<open>[]byte\<close> is a list of 8-bit words.\<close>

type_synonym bytes = "8 word list"

text \<open>
  The sentinel errors \<open>types.ErrTimeout\<close>, \<open>types.ErrNotConnected\<close>, \<open>types.ErrNoAck\<close> and
  \<open>types.ErrAlreadyStarted\<close> used by the two connectors, and \<open>ErrExternal msg\<close> for any
  error value produced by a client library (or by \<open>fmt.Errorf\<close>), with its message.
\<close>

datatype error = ErrTimeout | ErrNotConnected | ErrNoAck | ErrAlreadyStarted | ErrExternal string

text \<open>
  Modelled from the spec: package \<open>lib/types\<close> (\<open>Message\<close>, \<open>NewMessage\<close>, \<open>GetAll\<close>,
  \<open>Transaction\<close>, \<open>NewSimpleResponse\<close>) is not among the sources. The spec has a Message as
  an ordered sequence of opaque byte parts, a Transaction as a payload with a response sink,
  and a Result as success or a typed failure. The test of the archive processor builds
  messages with \<open>types.NewMessage([][]byte{...})\<close> and reads the parts back in order.
\<close>

datatype message = Message "bytes list"

definition NewMessage :: "bytes list \<Rightarrow> message" where
  "NewMessage parts = Message parts"

fun GetAll :: "message \<Rightarrow> bytes list" where
  "GetAll (Message parts) = parts"

datatype response = SimpleResponse "error option"

definition NewSimpleResponse :: "error option \<Rightarrow> response" where
  "NewSimpleResponse err = SimpleResponse err"

text \<open>A channel is named by a number; \<open>ResponseChan\<close> is the name of the response channel.\<close>

record transaction =
  Payload :: message
  ResponseChan :: nat

text \<open>
  A Go channel that is only ever closed (never sent on), as \<open>closeChan\<close> and \<open>closedChan\<close>
  are. Closing a closed channel panics: \<open>close_chan\<close> returns \<open>None\<close> then.
\<close>

datatype chan = ChanOpen | ChanClosed

fun close_chan :: "chan \<Rightarrow> chan option" where
  "close_chan ChanOpen = Some ChanClosed"
| "close_chan ChanClosed = None"

section \<open>The websocket input (lib/input/reader/websocket.go)\<close>

text \<open>
  The struct \<open>Websocket\<close>. Its fields \<open>log\<close>, \<open>stats\<close> and \<open>conf\<close> are never written after
  construction and decide nothing below; the mutex \<open>lock\<close> makes every access to \<open>client\<close>
  atomic, which a sequential model has for free. A \<open>*websocket.Conn\<close> is named by a number,
  \<open>None\<close> is the nil pointer.
\<close>

record Websocket =
  client :: "nat option"

definition NewWebsocket :: Websocket where
  "NewWebsocket = \<lparr>client = None\<rparr>"

text \<open>The calls a method makes on the outside world, in order.\<close>

datatype ws_call = CallSign | CallDial | CallReadMessage nat | CallClose nat

definition getWS :: "Websocket \<Rightarrow> nat option" where
  "getWS w = client w"

text \<open>
  \<open>Connect\<close>. The environment gives the result of \<open>w.conf.Sign\<close> (an error or nil) and of
  \<open>websocket.DefaultDialer.Dial\<close> (an error, or the new connection). The result is the
  new state, the calls made and the returned error.
\<close>

definition Websocket_Connect ::
  "Websocket \<Rightarrow> error option \<Rightarrow> error + nat \<Rightarrow> Websocket \<times> ws_call list \<times> error option" where
  "Websocket_Connect w sign_res dial_res =
     (if client w \<noteq> None then (w, [], None)
      else case sign_res of
             Some err \<Rightarrow> (w, [CallSign], Some err)
           | None \<Rightarrow>
               (case dial_res of
                  Inl err \<Rightarrow> (w, [CallSign, CallDial], Some err)
                | Inr c \<Rightarrow> (w\<lparr>client := Some c\<rparr>, [CallSign, CallDial], None)))"

text \<open>
  \<open>Read\<close>. The environment gives what \<open>client.ReadMessage()\<close> does: it returns data, it
  returns an error, or it never returns (\<open>ReadBlocks\<close>: the peer sends nothing). The result
  is \<open>None\<close> when \<open>Read\<close> itself never returns.
\<close>

datatype read_res = ReadData bytes | ReadError error | ReadBlocks

definition Websocket_Read ::
  "Websocket \<Rightarrow> read_res \<Rightarrow> (Websocket \<times> ws_call list \<times> (error + message)) option" where
  "Websocket_Read w rd =
     (case getWS w of
        None \<Rightarrow> Some (w, [], Inl ErrNotConnected)
      | Some c \<Rightarrow>
          (case rd of
             ReadBlocks \<Rightarrow> None
           | ReadError err \<Rightarrow> Some (w\<lparr>client := None\<rparr>, [CallReadMessage c], Inl ErrNotConnected)
           | ReadData data \<Rightarrow> Some (w, [CallReadMessage c], Inr (NewMessage [data]))))"

definition Websocket_Acknowledge :: "Websocket \<Rightarrow> error option \<Rightarrow> error option" where
  "Websocket_Acknowledge w err = None"

definition Websocket_CloseAsync :: "Websocket \<Rightarrow> Websocket \<times> ws_call list" where
  "Websocket_CloseAsync w =
     (case client w of
        Some c \<Rightarrow> (w\<lparr>client := None\<rparr>, [CallClose c])
      | None \<Rightarrow> (w, []))"

text \<open>\<open>WaitForClose\<close> of the websocket input: \<open>return nil\<close>, whatever the timeout.\<close>

definition Websocket_WaitForClose :: "Websocket \<Rightarrow> int \<Rightarrow> error option" where
  "Websocket_WaitForClose w timeout = None"

section \<open>The AMQP output\<close>

subsection \<open>State\<close>

text \<open>
  The counters the loop fetches from \<open>a.stats\<close>: \<open>mRunning\<close> is
  \<open>output.amqp.running\<close>, \<open>mReconErr\<close> is \<open>output.amqp.reconnect.error\<close>, \<open>mReconSucc\<close> is
  \<open>output.amqp.reconnect.success\<close>, \<open>mCount\<close> is \<open>output.amqp.count\<close>, \<open>mSucc\<close> is
  \<open>output.amqp.send.success\<close> and \<open>mErr\<close> is \<open>output.amqp.send.error\<close>.
\<close>

datatype counter = mRunning | mReconErr | mReconSucc | mCount | mSucc | mErr

text \<open>
  The struct \<open>AMQP\<close>: \<open>running\<close> is the \<open>int32\<close> flag; \<open>conn\<close>, \<open>amqpChan\<close> and
  \<open>amqpConfirmChan\<close> are pointers and channels of the client library, named by numbers,
  \<open>None\<close> being nil; \<open>transactions\<close> is the name of the channel given to \<open>StartReceiving\<close>.
  The fields \<open>log\<close> and \<open>conf\<close> decide nothing and are left out (log lines are not modelled).
  Two more fields record what the output does to the outside world: \<open>published\<close> is the
  list of bodies handed to \<open>Publish\<close>, in call order, and \<open>responses\<close> the list of responses
  written, each with the name of the \<open>ResponseChan\<close> it was written to.
\<close>

record AMQP =
  running :: "32 word"
  stats :: "counter \<Rightarrow> int"
  conn :: "nat option"
  amqpChan :: "nat option"
  amqpConfirmChan :: "nat option"
  transactions :: "nat option"
  closedChan :: chan
  closeChan :: chan
  published :: "bytes list"
  responses :: "(nat \<times> response) list"

definition NewAMQP :: "(counter \<Rightarrow> int) \<Rightarrow> AMQP" where
  "NewAMQP st =
     \<lparr>running = 1, stats = st, conn = None, amqpChan = None, amqpConfirmChan = None,
      transactions = None, closedChan = ChanOpen, closeChan = ChanOpen,
      published = [], responses = []\<rparr>"

definition Incr :: "counter \<Rightarrow> int \<Rightarrow> AMQP \<Rightarrow> AMQP" where
  "Incr c n a = a\<lparr>stats := (stats a)(c := stats a c + n)\<rparr>"

definition Decr :: "counter \<Rightarrow> int \<Rightarrow> AMQP \<Rightarrow> AMQP" where
  "Decr c n a = a\<lparr>stats := (stats a)(c := stats a c - n)\<rparr>"

subsection \<open>connect and disconnect\<close>

text \<open>
  What the client library does during one call of \<open>connect\<close>: \<open>amqp.Dial\<close> fails, and
  returns with its error either a nil connection or a connection \<open>c\<close> (the library hands
  back the connection it allocated when the handshake on it fails), which \<open>connect\<close> stores
  in \<open>a.conn\<close> as it comes; or \<open>Dial\<close> returns connection \<open>c\<close> and \<open>c.Channel()\<close> fails (and
  returns a nil channel); or the channel \<open>ch\<close> is opened and \<open>ExchangeDeclare\<close> fails; or
  \<open>Confirm\<close> fails; or all four succeed and \<open>NotifyPublish\<close> returns the confirmation
  channel \<open>cf\<close>. The strings are the messages of the library's errors.
\<close>

datatype connect_res =
    DialFails "nat option" string
  | ChannelFails nat string
  | ExchangeDeclareFails nat nat string
  | ConfirmFails nat nat string
  | ConnectOK nat nat nat

fun connect :: "AMQP \<Rightarrow> connect_res \<Rightarrow> AMQP \<times> error option" where
  "connect a (DialFails c e) =
     (a\<lparr>conn := c\<rparr>, Some (ErrExternal (''AMQP Connect: '' @ e)))"
| "connect a (ChannelFails c e) =
     (a\<lparr>conn := Some c, amqpChan := None\<rparr>, Some (ErrExternal (''AMQP Channel: '' @ e)))"
| "connect a (ExchangeDeclareFails c ch e) =
     (a\<lparr>conn := Some c, amqpChan := Some ch\<rparr>, Some (ErrExternal (''Exchange Declare: '' @ e)))"
| "connect a (ConfirmFails c ch e) =
     (a\<lparr>conn := Some c, amqpChan := Some ch\<rparr>,
      Some (ErrExternal (''Channel could not be put into confirm mode: '' @ e)))"
| "connect a (ConnectOK c ch cf) =
     (a\<lparr>conn := Some c, amqpChan := Some ch, amqpConfirmChan := Some cf\<rparr>, None)"

text \<open>
  \<open>disconnect\<close>; \<open>close_res\<close> is what \<open>a.conn.Close()\<close> returns if it is called (the message
  of its error, or \<open>None\<close> for nil).
\<close>

definition disconnect :: "AMQP \<Rightarrow> string option \<Rightarrow> AMQP \<times> error option" where
  "disconnect a close_res =
     (let a1 = (if amqpChan a \<noteq> None then a\<lparr>amqpChan := None\<rparr> else a)
      in if conn a1 \<noteq> None then
           (case close_res of
              Some e \<Rightarrow> (a1, Some (ErrExternal (''AMQP connection close error: '' @ e)))
            | None \<Rightarrow> (a1\<lparr>conn := None\<rparr>, None))
         else (a1, None))"

subsection \<open>The environment of the loop\<close>

text \<open>
  The loop talks to the broker, to the upstream channel of transactions, to the reader of
  each response channel and, through \<open>closeChan\<close> and the \<open>running\<close> flag, to the callers of
  \<open>CloseAsync\<close>. What these do is given to the model as a script; the loop itself is
  deterministic. Each \<open>select\<close> is given the case that fires.

  \<^item> \<open>backoff_ev\<close>: the select between \<open>time.After(time.Second)\<close> and \<open>closeChan\<close> after a
    failed \<open>connect\<close>. The timer always fires in the end, so this select never blocks.
  \<^item> \<open>confirm_ev\<close>: the select between \<open>amqpConfirmChan\<close> (a confirmation with its \<open>Ack\<close>
    flag) and \<open>closeChan\<close>; \<open>ConfirmNever\<close> when neither ever becomes ready.
  \<^item> \<open>publish_ev\<close>: one call of \<open>Publish\<close>: it returns an error (and then \<open>disconnect\<close> runs,
    with the given result of \<open>conn.Close()\<close>), or it returns nil (and then the select on
    the confirmation runs).
  \<^item> \<open>receive_ev\<close>: the select between \<open>a.transactions\<close> (a transaction, or the channel was
    closed) and \<open>closeChan\<close>.
  \<^item> \<open>response_ev\<close>: the select between the send on \<open>ts.ResponseChan\<close> and \<open>closeChan\<close>.
\<close>

datatype backoff_ev = TimerElapsed | BackoffClose

datatype confirm_ev = Confirmation bool | ConfirmClose | ConfirmNever

datatype publish_ev = PublishFails error "string option" | PublishOK confirm_ev

datatype receive_ev = Receive transaction | TransactionsClosed | ReceiveClose | ReceiveNever

datatype response_ev = ResponseTaken | ResponseClose | ResponseNever

text \<open>
  One pass of the service loop (the \<open>for atomic.LoadInt32(&a.running) == 1\<close> loop):
  \<open>p_running\<close> is the value the atomic load returns (the flag is shared with \<open>CloseAsync\<close>,
  which runs on other goroutines); \<open>p_connects\<close> gives, for each call of \<open>connect\<close> in the
  reconnect loop, its result and the backoff select that follows a failure; \<open>p_receive\<close>
  the select on the transactions; \<open>p_publishes\<close> one event for each call of \<open>Publish\<close>;
  \<open>p_response\<close> the select on the response. Events a pass does not reach are not looked at.
\<close>

record pass =
  p_running :: "32 word"
  p_connects :: "(connect_res \<times> backoff_ev) list"
  p_receive :: receive_ev
  p_publishes :: "publish_ev list"
  p_response :: response_ev

text \<open>
  The whole run: \<open>s_connects\<close> for the first loop (connect until it succeeds), \<open>s_passes\<close>
  for the service loop, \<open>s_close\<close> the result of \<open>conn.Close()\<close> in the deferred
  \<open>disconnect\<close>.
\<close>

record script =
  s_connects :: "(connect_res \<times> backoff_ev) list"
  s_passes :: "pass list"
  s_close :: "string option"

text \<open>The \<open>return\<close> statements of \<open>loop\<close> (and the exit of the service loop by its condition).\<close>

datatype exit_path =
    CloseDuringConnect
  | CloseDuringReconnect
  | TransactionsChanClosed
  | CloseWhileReceiving
  | CloseWhileConfirming
  | CloseWhileResponding
  | RunningFlagCleared

text \<open>
  Where a piece of the loop ends: it goes on to the next statement (\<open>Next\<close>), it returns
  from \<open>loop\<close> (\<open>Return\<close>), it waits for an event the script does not hold (\<open>Pending\<close>: the
  goroutine is blocked, or the script was cut there), or it panics.
\<close>

datatype flow = Next AMQP | Return exit_path AMQP | Pending AMQP | Panic AMQP

subsection \<open>The loop\<close>

text \<open>The first loop: \<open>connect\<close> until it succeeds, one second between attempts.\<close>

fun initial_connect :: "AMQP \<Rightarrow> (connect_res \<times> backoff_ev) list \<Rightarrow> flow" where
  "initial_connect a [] = Pending a"
| "initial_connect a ((res, bev) # evs) =
     (case connect a res of
        (a1, Some err) \<Rightarrow>
          (case bev of
             TimerElapsed \<Rightarrow> initial_connect a1 evs
           | BackoffClose \<Rightarrow> Return CloseDuringConnect a1)
      | (a1, None) \<Rightarrow> Next a1)"

text \<open>The reconnect loop \<open>for a.amqpChan == nil\<close>.\<close>

fun reconnect_loop :: "AMQP \<Rightarrow> (connect_res \<times> backoff_ev) list \<Rightarrow> flow" where
  "reconnect_loop a [] = (if amqpChan a = None then Pending a else Next a)"
| "reconnect_loop a ((res, bev) # evs) =
     (if amqpChan a = None then
        (case connect a res of
           (a1, Some err) \<Rightarrow>
             (case bev of
                TimerElapsed \<Rightarrow> reconnect_loop (Incr mReconErr 1 a1) evs
              | BackoffClose \<Rightarrow> Return CloseDuringReconnect (Incr mReconErr 1 a1))
         | (a1, None) \<Rightarrow> reconnect_loop (Incr mReconSucc 1 a1) evs)
      else Next a)"

text \<open>
  The loop over the parts, \<open>for _, part := range ts.Payload.GetAll()\<close>. \<open>PartsDone err\<close> is
  the end of the \<open>for\<close> (by exhaustion or by \<open>break\<close>) with the value of the variable \<open>err\<close>;
  \<open>PartsReturn\<close> is the \<open>return\<close> on \<open>closeChan\<close>. Calling \<open>Publish\<close> on a nil \<open>amqpChan\<close>
  dereferences a nil pointer: \<open>PartsPanic\<close>.
\<close>

datatype parts_flow =
    PartsDone "error option" AMQP
  | PartsReturn AMQP
  | PartsPending AMQP
  | PartsPanic AMQP

fun publish_parts :: "AMQP \<Rightarrow> bytes list \<Rightarrow> publish_ev list \<Rightarrow> parts_flow" where
  "publish_parts a [] evs = PartsDone None a"
| "publish_parts a (part # parts) [] =
     (if amqpChan a = None then PartsPanic a else PartsPending a)"
| "publish_parts a (part # parts) (ev # evs) =
     (if amqpChan a = None then PartsPanic a
      else
        (let a1 = a\<lparr>published := published a @ [part]\<rparr>
         in case ev of
              PublishFails err close_res \<Rightarrow>
                PartsDone (Some err) (Incr mErr 1 (fst (disconnect a1 close_res)))
            | PublishOK cev \<Rightarrow>
                (case cev of
                   Confirmation ack \<Rightarrow>
                     (if ack then publish_parts (Incr mSucc 1 a1) parts evs
                      else PartsDone (Some ErrNoAck) (Incr mErr 1 a1))
                 | ConfirmClose \<Rightarrow> PartsReturn a1
                 | ConfirmNever \<Rightarrow> PartsPending a1)))"

text \<open>
  The rest of a pass once a transaction was received: count it, publish its parts, write
  the response.
\<close>

definition serve_transaction ::
  "AMQP \<Rightarrow> transaction \<Rightarrow> publish_ev list \<Rightarrow> response_ev \<Rightarrow> flow" where
  "serve_transaction a ts pevs rsp =
     (case publish_parts (Incr mCount 1 a) (GetAll (Payload ts)) pevs of
        PartsDone err a1 \<Rightarrow>
          (case rsp of
             ResponseTaken \<Rightarrow>
               Next (a1\<lparr>responses := responses a1 @ [(ResponseChan ts, NewSimpleResponse err)]\<rparr>)
           | ResponseClose \<Rightarrow> Return CloseWhileResponding a1
           | ResponseNever \<Rightarrow> Pending a1)
      | PartsReturn a1 \<Rightarrow> Return CloseWhileConfirming a1
      | PartsPending a1 \<Rightarrow> Pending a1
      | PartsPanic a1 \<Rightarrow> Panic a1)"

text \<open>The body of the service loop.\<close>

definition pass_body :: "AMQP \<Rightarrow> pass \<Rightarrow> flow" where
  "pass_body a p =
     (case reconnect_loop a (p_connects p) of
        Next a1 \<Rightarrow>
          (case p_receive p of
             Receive ts \<Rightarrow> serve_transaction a1 ts (p_publishes p) (p_response p)
           | TransactionsClosed \<Rightarrow> Return TransactionsChanClosed a1
           | ReceiveClose \<Rightarrow> Return CloseWhileReceiving a1
           | ReceiveNever \<Rightarrow> Pending a1)
      | Return path a1 \<Rightarrow> Return path a1
      | Pending a1 \<Rightarrow> Pending a1
      | Panic a1 \<Rightarrow> Panic a1)"

fun service_loop :: "AMQP \<Rightarrow> pass list \<Rightarrow> flow" where
  "service_loop a [] = Pending a"
| "service_loop a (p # ps) =
     (if p_running p = 1 then
        (case pass_body a p of
           Next a1 \<Rightarrow> service_loop a1 ps
         | Return path a1 \<Rightarrow> Return path a1
         | Pending a1 \<Rightarrow> Pending a1
         | Panic a1 \<Rightarrow> Panic a1)
      else Return RunningFlagCleared a)"

text \<open>
  The deferred function: store 0 in \<open>running\<close>, \<open>disconnect\<close>, decrement \<open>mRunning\<close>, close
  \<open>closedChan\<close>. \<open>None\<close> is the panic of closing a closed channel.
\<close>

definition deferred :: "AMQP \<Rightarrow> string option \<Rightarrow> AMQP option" where
  "deferred a close_res =
     (let a1 = a\<lparr>running := 0\<rparr>;
          a2 = fst (disconnect a1 close_res);
          a3 = Decr mRunning 1 a2
      in case close_chan (closedChan a3) of
           None \<Rightarrow> None
         | Some c \<Rightarrow> Some (a3\<lparr>closedChan := c\<rparr>))"

text \<open>
  The statements of \<open>loop\<close> between the \<open>defer\<close> and the end of the function.
  \<open>service_loop\<close> never ends in \<open>Next\<close> (lemma \<open>service_loop_not_Next\<close>).
\<close>

definition loop_body :: "AMQP \<Rightarrow> script \<Rightarrow> flow" where
  "loop_body a s =
     (case initial_connect (Incr mRunning 1 a) (s_connects s) of
        Next a1 \<Rightarrow> service_loop a1 (s_passes s)
      | Return path a1 \<Rightarrow> Return path a1
      | Pending a1 \<Rightarrow> Pending a1
      | Panic a1 \<Rightarrow> Panic a1)"

text \<open>
  \<open>loop\<close>: it returns by \<open>path\<close> after the deferred function has run (\<open>Exited\<close>), or it has
  not returned when the script ends (\<open>StillRunning\<close>), or the goroutine panics, in the body
  or in the deferred function (\<open>Crashed\<close>).
\<close>

datatype loop_result = Exited exit_path AMQP | StillRunning AMQP | Crashed

definition loop :: "AMQP \<Rightarrow> script \<Rightarrow> loop_result" where
  "loop a s =
     (case loop_body a s of
        Return path a1 \<Rightarrow>
          (case deferred a1 (s_close s) of
             Some a2 \<Rightarrow> Exited path a2
           | None \<Rightarrow> Crashed)
      | Pending a1 \<Rightarrow> StillRunning a1
      | Next a1 \<Rightarrow> StillRunning a1
      | Panic a1 \<Rightarrow> Crashed)"

definition exited_state :: "loop_result \<Rightarrow> AMQP option" where
  "exited_state r = (case r of Exited path a \<Rightarrow> Some a | StillRunning a \<Rightarrow> None | Crashed \<Rightarrow> None)"

definition exited_by :: "loop_result \<Rightarrow> exit_path option" where
  "exited_by r = (case r of Exited path a \<Rightarrow> Some path | StillRunning a \<Rightarrow> None | Crashed \<Rightarrow> None)"

subsection \<open>StartReceiving, CloseAsync, WaitForClose\<close>

text \<open>\<open>StartReceiving\<close>, without the \<open>go a.loop()\<close> it ends with when it succeeds.\<close>

definition StartReceiving :: "AMQP \<Rightarrow> nat \<Rightarrow> AMQP \<times> error option" where
  "StartReceiving a ts =
     (if transactions a \<noteq> None then (a, Some ErrAlreadyStarted)
      else (a\<lparr>transactions := Some ts\<rparr>, None))"

text \<open>
  \<open>CloseAsync\<close> run without interruption: the compare-and-swap of \<open>running\<close> from 1 to 0 and,
  if it succeeded, \<open>close(a.closeChan)\<close>. \<open>None\<close> is the panic of closing a closed channel.
\<close>

definition AMQP_CloseAsync :: "AMQP \<Rightarrow> AMQP option" where
  "AMQP_CloseAsync a =
     (if running a = 1 then
        (case close_chan (closeChan (a\<lparr>running := 0\<rparr>)) of
           None \<Rightarrow> None
         | Some c \<Rightarrow> Some (a\<lparr>running := 0, closeChan := c\<rparr>))
      else Some a)"

text \<open>\<open>n\<close> calls of \<open>CloseAsync\<close>, one after the other.\<close>

fun CloseAsync_times :: "nat \<Rightarrow> AMQP \<Rightarrow> AMQP option" where
  "CloseAsync_times 0 a = Some a"
| "CloseAsync_times (Suc n) a =
     (case AMQP_CloseAsync a of
        None \<Rightarrow> None
      | Some a1 \<Rightarrow> CloseAsync_times n a1)"

text \<open>
  Concurrent calls of \<open>CloseAsync\<close>. Each call takes two atomic steps: the compare-and-swap
  (\<open>AtCAS\<close>), which sends the winner to \<open>AtClose\<close> and a loser to \<open>Returned\<close>, and the
  \<open>close\<close> (\<open>AtClose\<close>). The state is the struct with the place of every call. A schedule
  is the list of what happens next, in order: \<open>Call i\<close>, call number \<open>i\<close> takes its next
  step; or \<open>DeferredStore\<close>, the loop returns meanwhile and its deferred function stores 0
  in \<open>running\<close> (the only other write to the flag; what else the deferred function does
  touches neither \<open>running\<close> nor \<open>closeChan\<close>). \<open>None\<close> is the panic of a second \<open>close\<close>.
\<close>

datatype close_pc = AtCAS | AtClose | Returned

datatype close_ev = Call nat | DeferredStore

fun CloseAsync_step ::
  "close_ev \<Rightarrow> AMQP \<times> close_pc list \<Rightarrow> (AMQP \<times> close_pc list) option" where
  "CloseAsync_step DeferredStore (a, pcs) = Some (a\<lparr>running := 0\<rparr>, pcs)"
| "CloseAsync_step (Call i) (a, pcs) =
     (if i < length pcs then
        (case pcs ! i of
           AtCAS \<Rightarrow>
             (if running a = 1 then Some (a\<lparr>running := 0\<rparr>, pcs[i := AtClose])
              else Some (a, pcs[i := Returned]))
         | AtClose \<Rightarrow>
             (case close_chan (closeChan a) of
                None \<Rightarrow> None
              | Some c \<Rightarrow> Some (a\<lparr>closeChan := c\<rparr>, pcs[i := Returned]))
         | Returned \<Rightarrow> Some (a, pcs))
      else Some (a, pcs))"

fun CloseAsync_run ::
  "close_ev list \<Rightarrow> AMQP \<times> close_pc list \<Rightarrow> (AMQP \<times> close_pc list) option" where
  "CloseAsync_run [] st = Some st"
| "CloseAsync_run (ev # sched) st =
     (case CloseAsync_step ev st of
        None \<Rightarrow> None
      | Some st1 \<Rightarrow> CloseAsync_run sched st1)"

text \<open>
  \<open>WaitForClose\<close> of the AMQP output: a select between \<open>closedChan\<close> and
  \<open>time.After(timeout)\<close>. Time is counted in ticks; tick 0 is the instant of the call. If
  \<open>closedChan\<close> is closed at the call it is ready at tick 0; if it is open, the loop closes
  it later, at tick \<open>Suc d\<close> when \<open>closes_after\<close> is \<open>Some d\<close>, or never (\<open>None\<close>). The timer
  fires at tick \<open>timeout\<close> (at tick 0 when the duration is not positive). The select takes
  the case that is ready first; when both become ready at the same tick Go chooses either,
  and \<open>tie\<close> says which.
\<close>

datatype wait_ev = ClosedSignal | TimeoutElapsed

definition closed_tick :: "AMQP \<Rightarrow> nat option \<Rightarrow> nat option" where
  "closed_tick a closes_after =
     (case closedChan a of
        ChanClosed \<Rightarrow> Some 0
      | ChanOpen \<Rightarrow> map_option Suc closes_after)"

definition WaitForClose_select :: "nat option \<Rightarrow> int \<Rightarrow> bool \<Rightarrow> wait_ev" where
  "WaitForClose_select closed_at timeout tie =
     (case closed_at of
        None \<Rightarrow> TimeoutElapsed
      | Some t \<Rightarrow>
          (if t < nat timeout then ClosedSignal
           else if nat timeout < t then TimeoutElapsed
           else if tie then ClosedSignal else TimeoutElapsed))"

definition AMQP_WaitForClose :: "AMQP \<Rightarrow> nat option \<Rightarrow> int \<Rightarrow> bool \<Rightarrow> error option" where
  "AMQP_WaitForClose a closes_after timeout tie =
     (case WaitForClose_select (closed_tick a closes_after) timeout tie of
        ClosedSignal \<Rightarrow> None
      | TimeoutElapsed \<Rightarrow> Some ErrTimeout)"

subsection \<open>Reading results\<close>

text \<open>The state a piece of the loop ends in.\<close>

fun flow_state :: "flow \<Rightarrow> AMQP" where
  "flow_state (Next a) = a"
| "flow_state (Return path a) = a"
| "flow_state (Pending a) = a"
| "flow_state (Panic a) = a"

fun parts_state :: "parts_flow \<Rightarrow> AMQP" where
  "parts_state (PartsDone err a) = a"
| "parts_state (PartsReturn a) = a"
| "parts_state (PartsPending a) = a"
| "parts_state (PartsPanic a) = a"

text \<open>
  The words of the specification, for comparison with the loop: a part fails when the
  publish call errors (the failure is that error) or when its confirmation is negative
  (the failure is \<open>ErrNoAck\<close>); the verdict on a list of parts is the first failure
  met, or success when there is none.
\<close>

fun part_failure :: "publish_ev \<Rightarrow> error option" where
  "part_failure (PublishFails err close_res) = Some err"
| "part_failure (PublishOK (Confirmation ack)) = (if ack then None else Some ErrNoAck)"
| "part_failure (PublishOK ConfirmClose) = None"
| "part_failure (PublishOK ConfirmNever) = None"




subsection \<open>Sample inputs\<close>

text \<open>
  All counters at zero; an output whose first \<open>connect\<close> succeeded (connection 1, channel
  2, confirmation channel 3); transactions of two and of three parts; a publish that is
  positively confirmed and one that is negatively confirmed.
\<close>

definition zero_stats :: "counter \<Rightarrow> int" where
  "zero_stats c = 0"

definition connected_AMQP :: AMQP where
  "connected_AMQP = fst (connect (NewAMQP zero_stats) (ConnectOK 1 2 3))"

definition two_parts :: transaction where
  "two_parts = \<lparr>Payload = NewMessage [[104, 105], [33]], ResponseChan = 9\<rparr>"

definition three_parts :: transaction where
  "three_parts = \<lparr>Payload = NewMessage [[1], [2], [3]], ResponseChan = 10\<rparr>"

definition ack :: publish_ev where
  "ack = PublishOK (Confirmation True)"

definition nack :: publish_ev where
  "nack = PublishOK (Confirmation False)"

text \<open>
  For each way out of \<open>loop\<close>, a script that takes it, for an output started from
  \<open>NewAMQP\<close>.
\<close>

definition serving :: pass where
  "serving = \<lparr>p_running = 1, p_connects = [], p_receive = Receive two_parts,
     p_publishes = [ack, ack], p_response = ResponseTaken\<rparr>"

fun sample_script :: "exit_path \<Rightarrow> script" where
  "sample_script CloseDuringConnect =
     \<lparr>s_connects = [(DialFails None ''refused'', TimerElapsed),
                    (DialFails (Some 1) ''handshake failed'', BackoffClose)],
      s_passes = [], s_close = None\<rparr>"
| "sample_script CloseDuringReconnect =
     \<lparr>s_connects = [(ConnectOK 1 2 3, TimerElapsed)],
      s_passes =
        [serving\<lparr>p_publishes := [PublishFails (ErrExternal ''channel closed'') None]\<rparr>,
         serving\<lparr>p_connects := [(ChannelFails 4 ''refused'', BackoffClose)]\<rparr>],
      s_close = None\<rparr>"
| "sample_script TransactionsChanClosed =
     \<lparr>s_connects = [(ConnectOK 1 2 3, TimerElapsed)],
      s_passes = [serving, serving\<lparr>p_receive := TransactionsClosed\<rparr>], s_close = None\<rparr>"
| "sample_script CloseWhileReceiving =
     \<lparr>s_connects = [(ConnectOK 1 2 3, TimerElapsed)],
      s_passes = [serving\<lparr>p_receive := ReceiveClose\<rparr>], s_close = None\<rparr>"
| "sample_script CloseWhileConfirming =
     \<lparr>s_connects = [(ConnectOK 1 2 3, TimerElapsed)],
      s_passes = [serving\<lparr>p_publishes := [ack, PublishOK ConfirmClose]\<rparr>], s_close = None\<rparr>"
| "sample_script CloseWhileResponding =
     \<lparr>s_connects = [(ConnectOK 1 2 3, TimerElapsed)],
      s_passes = [serving\<lparr>p_response := ResponseClose\<rparr>], s_close = None\<rparr>"
| "sample_script RunningFlagCleared =
     \<lparr>s_connects = [(ConnectOK 1 2 3, TimerElapsed)],
      s_passes = [serving, serving\<lparr>p_running := 0\<rparr>], s_close = None\<rparr>"

text \<open>
  A transport whose \<open>connect\<close> fails twice and then succeeds, met at start-up; the output
  then serves one transaction and the transactions channel is closed.
\<close>

definition fails_twice_then_connects :: script where
  "fails_twice_then_connects =
     \<lparr>s_connects = [(DialFails None ''refused'', TimerElapsed), (DialFails None ''refused'', TimerElapsed),
                    (ConnectOK 1 2 3, TimerElapsed)],
      s_passes = [serving, serving\<lparr>p_receive := TransactionsClosed\<rparr>], s_close = None\<rparr>"

definition reconnect_counts :: "AMQP \<Rightarrow> int \<times> int" where
  "reconnect_counts a = (stats a mReconErr, stats a mReconSucc)"

text \<open>
  The failures of \<open>connect\<close>, and those among them that leave \<open>amqpChan\<close> nil: dialling
  failed, or opening the channel failed.
\<close>

fun connect_fails :: "connect_res \<Rightarrow> bool" where
  "connect_fails (ConnectOK c ch cf) = False"
| "connect_fails (DialFails c e) = True"
| "connect_fails (ChannelFails c e) = True"
| "connect_fails (ExchangeDeclareFails c ch e) = True"
| "connect_fails (ConfirmFails c ch e) = True"

fun fails_without_channel :: "connect_res \<Rightarrow> bool" where
  "fails_without_channel (DialFails c e) = True"
| "fails_without_channel (ChannelFails c e) = True"
| "fails_without_channel (ExchangeDeclareFails c ch e) = False"
| "fails_without_channel (ConfirmFails c ch e) = False"
| "fails_without_channel (ConnectOK c ch cf) = False"

text \<open>A transport that refuses the connection, and a loop still at its first attempts.\<close>

definition still_connecting :: script where
  "still_connecting =
     \<lparr>s_connects = [(DialFails None ''refused'', TimerElapsed), (DialFails None ''refused'', TimerElapsed)],
      s_passes = [], s_close = None\<rparr>"

text \<open>
  What holds of the struct and of the calls of \<open>CloseAsync\<close> under way, when they started
  from the struct \<open>a0\<close> with \<open>closeChan\<close> open: only \<open>running\<close> and \<open>closeChan\<close> have changed;
  while \<open>running\<close> is 1 no call has passed its compare-and-swap and \<open>closeChan\<close> is open;
  afterwards the calls at \<open>AtClose\<close> and the closes done add up to one at most, and, in a
  schedule without \<open>DeferredStore\<close> (\<open>strict\<close>), to exactly one if the flag was 1 at the
  start and to none otherwise.
\<close>

definition close_inv :: "bool \<Rightarrow> AMQP \<Rightarrow> AMQP \<times> close_pc list \<Rightarrow> bool" where
  "close_inv strict a0 st =
     (a0\<lparr>running := 0, closeChan := ChanOpen\<rparr> = (fst st)\<lparr>running := 0, closeChan := ChanOpen\<rparr>
      \<and> (if running (fst st) = 1 then
            running a0 = 1 \<and> closeChan (fst st) = ChanOpen \<and> set (snd st) \<subseteq> {AtCAS}
          else
            count_list (snd st) AtClose + (if closeChan (fst st) = ChanClosed then 1 else 0)
              \<le> (if running a0 = 1 then 1 else 0)
            \<and> (if strict then
                  running (fst st) = (if running a0 = 1 then 0 else running a0)
                  \<and> count_list (snd st) AtClose
                      + (if closeChan (fst st) = ChanClosed then 1 else 0)
                      = (if running a0 = 1 then 1 else 0)
                else True)))"

text \<open>
  The closes owed in a state of the concurrent calls: the calls that won the
  compare-and-swap and have not closed yet, plus one if \<open>closeChan\<close> is closed. And whether,
  in a schedule for \<open>n\<close> calls, the first step that changes anything is the
  compare-and-swap of a call, before any store of the loop's deferred function: the flag is
  then still what it was when that first call reads it.
\<close>

definition closes_owed :: "AMQP \<times> close_pc list \<Rightarrow> nat" where
  "closes_owed st =
     count_list (snd st) AtClose + (if closeChan (fst st) = ChanClosed then 1 else 0)"

fun wins_first :: "nat \<Rightarrow> close_ev list \<Rightarrow> bool" where
  "wins_first n [] = False"
| "wins_first n (DeferredStore # sched) = False"
| "wins_first n (Call i # sched) = (if i < n then True else wins_first n sched)"

section \<open>The websocket input: Read and Connect\<close>

text \<open>
  C7. \<open>Read\<close> returns \<open>ErrNotConnected\<close> without calling \<open>ReadMessage\<close> (so without blocking,
  whatever the peer does) when no client is stored; when \<open>ReadMessage\<close> on the stored
  client fails, \<open>Read\<close> sets the stored client to nil and returns \<open>ErrNotConnected\<close>; and a
  message is returned only from a successful \<open>ReadMessage\<close> on a stored client, which is
  left in place.
\<close>

theorem Websocket_Read_NotConnected:
  "(client w = None \<longrightarrow> Websocket_Read w rd = Some (w, [], Inl ErrNotConnected))
   \<and> (client w = Some c \<and> rd = ReadError err \<longrightarrow>
        Websocket_Read w rd = Some (w\<lparr>client := None\<rparr>, [CallReadMessage c], Inl ErrNotConnected))
   \<and> (Websocket_Read w rd = Some (w', calls, Inr m) \<longrightarrow>
        (\<exists>c data. client w = Some c \<and> rd = ReadData data \<and> calls = [CallReadMessage c]
           \<and> w' = w \<and> m = NewMessage [data]))"
  by (auto simp: Websocket_Read_def getWS_def split: option.splits read_res.splits)

theorem Websocket_Read_NotConnected_witness:
  "client NewWebsocket = None
   \<and> Websocket_Read NewWebsocket ReadBlocks = Some (NewWebsocket, [], Inl ErrNotConnected)
   \<and> client \<lparr>client = Some 7\<rparr> = Some 7
   \<and> Websocket_Read \<lparr>client = Some 7\<rparr> (ReadError (ErrExternal ''EOF''))
       = Some (\<lparr>client = None\<rparr>, [CallReadMessage 7], Inl ErrNotConnected)
   \<and> Websocket_Read \<lparr>client = Some 7\<rparr> (ReadData [1, 2])
       = Some (\<lparr>client = Some 7\<rparr>, [CallReadMessage 7], Inr (NewMessage [[1, 2]]))"
proof -
  have h1: "client NewWebsocket = None"
    by (simp add: NewWebsocket_def)
  have h2: "client \<lparr>client = Some 7\<rparr> = Some 7
      \<and> ReadError (ErrExternal ''EOF'') = ReadError (ErrExternal ''EOF'')"
    by simp
  have r3: "Websocket_Read \<lparr>client = Some 7\<rparr> (ReadData [1, 2])
       = Some (\<lparr>client = Some 7\<rparr>, [CallReadMessage 7], Inr (NewMessage [[1, 2]]))"
    by (simp add: Websocket_Read_def getWS_def)
  note t1 = Websocket_Read_NotConnected [of NewWebsocket ReadBlocks,
      THEN conjunct1, rule_format, OF h1]
  note t2 = Websocket_Read_NotConnected [of "\<lparr>client = Some 7\<rparr>"
      "ReadError (ErrExternal ''EOF'')" 7 "ErrExternal ''EOF''",
      THEN conjunct2, THEN conjunct1, rule_format, OF h2]
  note t3 = Websocket_Read_NotConnected [of "\<lparr>client = Some 7\<rparr>" "ReadData [1, 2]" _ _
      "\<lparr>client = Some 7\<rparr>" "[CallReadMessage 7]" "NewMessage [[1, 2]]",
      THEN conjunct2, THEN conjunct2, rule_format, OF r3]
  from h1 t1 h2 t2 r3 t3 show ?thesis by simp
qed

text \<open>
  C8. \<open>Connect\<close> is idempotent: with a client stored it returns nil at once, makes no call
  (neither \<open>Sign\<close> nor \<open>Dial\<close>) and leaves the state as it is; it dials only when no client
  is stored (and signing succeeded); and, from a state with no client, the client stored
  afterwards is \<open>c'\<close> exactly when it dialled and the dial returned \<open>c'\<close>. When it stores
  nothing it returns an error.
\<close>

theorem Websocket_Connect_idempotent:
  "(client w = Some c \<longrightarrow> Websocket_Connect w sign_res dial_res = (w, [], None))
   \<and> (CallDial \<in> set (fst (snd (Websocket_Connect w sign_res dial_res))) \<longrightarrow>
        client w = None \<and> sign_res = None)
   \<and> (client w = None \<longrightarrow>
        (client (fst (Websocket_Connect w sign_res dial_res)) = Some c'
           \<longleftrightarrow> CallDial \<in> set (fst (snd (Websocket_Connect w sign_res dial_res)))
               \<and> dial_res = Inr c'))
   \<and> (client w = None \<and> client (fst (Websocket_Connect w sign_res dial_res)) = None \<longrightarrow>
        snd (snd (Websocket_Connect w sign_res dial_res)) \<noteq> None)"
  by (auto simp: Websocket_Connect_def split: option.splits sum.splits)

theorem Websocket_Connect_idempotent_witness:
  "client \<lparr>client = Some 7\<rparr> = Some 7
   \<and> Websocket_Connect \<lparr>client = Some 7\<rparr> None (Inr 8) = (\<lparr>client = Some 7\<rparr>, [], None)
   \<and> client NewWebsocket = None
   \<and> CallDial \<in> set (fst (snd (Websocket_Connect NewWebsocket None (Inr 8))))
   \<and> client (fst (Websocket_Connect NewWebsocket None (Inr 8))) = Some 8
   \<and> client (fst (Websocket_Connect NewWebsocket None (Inl (ErrExternal ''refused'')))) = None
   \<and> snd (snd (Websocket_Connect NewWebsocket None (Inl (ErrExternal ''refused'')))) \<noteq> None"
proof -
  have h1: "client \<lparr>client = Some 7\<rparr> = Some 7"
    by simp
  have h2: "client NewWebsocket = None"
    by (simp add: NewWebsocket_def)
  have h3: "CallDial \<in> set (fst (snd (Websocket_Connect NewWebsocket None (Inr 8))))"
    by (simp add: Websocket_Connect_def NewWebsocket_def)
  have h4: "client NewWebsocket = None
      \<and> client (fst (Websocket_Connect NewWebsocket None (Inl (ErrExternal ''refused'')))) = None"
    by (simp add: Websocket_Connect_def NewWebsocket_def)
  note t1 = Websocket_Connect_idempotent [of "\<lparr>client = Some 7\<rparr>" 7 None "Inr 8",
      THEN conjunct1, rule_format, OF h1]
  note t2 = Websocket_Connect_idempotent [of NewWebsocket _ None "Inr 8" 8,
      THEN conjunct2, THEN conjunct2, THEN conjunct1, rule_format, OF h2]
  note t3 = Websocket_Connect_idempotent [of NewWebsocket _ None "Inl (ErrExternal ''refused'')",
      THEN conjunct2, THEN conjunct2, THEN conjunct2, rule_format, OF h4]
  from h1 t1 h2 h3 t2 h4 t3 show ?thesis by simp
qed

text \<open>
  C10. Every successful \<open>Read\<close> returns a message of exactly one part, and that part is the
  payload \<open>ReadMessage\<close> returned: the input never produces a message of several parts.
\<close>

theorem Websocket_Read_single_part:
  "Websocket_Read w rd = Some (w', calls, Inr m) \<Longrightarrow>
     \<exists>data. rd = ReadData data \<and> GetAll m = [data] \<and> length (GetAll m) = 1"
  by (auto simp: Websocket_Read_def getWS_def NewMessage_def
      split: option.splits read_res.splits)

theorem Websocket_Read_single_part_witness:
  "Websocket_Read \<lparr>client = Some 7\<rparr> (ReadData [104, 105])
     = Some (\<lparr>client = Some 7\<rparr>, [CallReadMessage 7], Inr (Message [[104, 105]]))
   \<and> (\<exists>data. ReadData [104, 105] = ReadData data \<and> GetAll (Message [[104, 105]]) = [data]
        \<and> length (GetAll (Message [[104, 105]])) = 1)"
proof -
  have h: "Websocket_Read \<lparr>client = Some 7\<rparr> (ReadData [104, 105])
     = Some (\<lparr>client = Some 7\<rparr>, [CallReadMessage 7], Inr (Message [[104, 105]]))"
    by (simp add: Websocket_Read_def getWS_def NewMessage_def)
  from h Websocket_Read_single_part [OF h] show ?thesis by blast
qed

section \<open>The AMQP output: what each piece of the loop leaves alone\<close>

lemma Incr_fields [simp]:
  "running (Incr c n a) = running a" "conn (Incr c n a) = conn a"
  "amqpChan (Incr c n a) = amqpChan a" "amqpConfirmChan (Incr c n a) = amqpConfirmChan a"
  "transactions (Incr c n a) = transactions a" "closedChan (Incr c n a) = closedChan a"
  "closeChan (Incr c n a) = closeChan a" "published (Incr c n a) = published a"
  "responses (Incr c n a) = responses a"
  "stats (Incr c n a) c' = (if c' = c then stats a c + n else stats a c')"
  by (simp_all add: Incr_def)

lemma Decr_fields [simp]:
  "running (Decr c n a) = running a" "conn (Decr c n a) = conn a"
  "amqpChan (Decr c n a) = amqpChan a" "amqpConfirmChan (Decr c n a) = amqpConfirmChan a"
  "transactions (Decr c n a) = transactions a" "closedChan (Decr c n a) = closedChan a"
  "closeChan (Decr c n a) = closeChan a" "published (Decr c n a) = published a"
  "responses (Decr c n a) = responses a"
  "stats (Decr c n a) c' = (if c' = c then stats a c - n else stats a c')"
  by (simp_all add: Decr_def)

lemma disconnect_fields [simp]:
  "running (fst (disconnect a cl)) = running a"
  "amqpChan (fst (disconnect a cl)) = None"
  "amqpConfirmChan (fst (disconnect a cl)) = amqpConfirmChan a"
  "transactions (fst (disconnect a cl)) = transactions a"
  "closedChan (fst (disconnect a cl)) = closedChan a"
  "closeChan (fst (disconnect a cl)) = closeChan a"
  "published (fst (disconnect a cl)) = published a"
  "responses (fst (disconnect a cl)) = responses a"
  "stats (fst (disconnect a cl)) = stats a"
  by (auto simp: disconnect_def Let_def split: option.splits)

lemma disconnect_conn:
  "conn (fst (disconnect a cl)) = (if cl = None then None else conn a)"
  by (auto simp: disconnect_def Let_def split: option.splits)

lemma connect_fields [simp]:
  "running (fst (connect a r)) = running a"
  "transactions (fst (connect a r)) = transactions a"
  "closedChan (fst (connect a r)) = closedChan a"
  "closeChan (fst (connect a r)) = closeChan a"
  "published (fst (connect a r)) = published a"
  "responses (fst (connect a r)) = responses a"
  "stats (fst (connect a r)) = stats a"
  by (cases r; simp)+

lemma connect_ok_chan:
  "connect a r = (a1, None) \<Longrightarrow> amqpChan a1 \<noteq> None"
  by (cases r) auto



lemma publish_parts_frame:
  "responses (parts_state (publish_parts a parts evs)) = responses a
   \<and> closedChan (parts_state (publish_parts a parts evs)) = closedChan a
   \<and> closeChan (parts_state (publish_parts a parts evs)) = closeChan a
   \<and> running (parts_state (publish_parts a parts evs)) = running a
   \<and> transactions (parts_state (publish_parts a parts evs)) = transactions a"
  by (induction a parts evs rule: publish_parts.induct)
     (auto simp: Let_def split: publish_ev.splits confirm_ev.splits if_splits)

lemma publish_parts_no_panic:
  "amqpChan a \<noteq> None \<Longrightarrow> publish_parts a parts evs \<noteq> PartsPanic a'"
  by (induction a parts evs rule: publish_parts.induct)
     (auto simp: Let_def split: publish_ev.splits confirm_ev.splits if_splits)

lemma publish_parts_fails_at:
  "amqpChan a \<noteq> None \<Longrightarrow> k < length parts \<Longrightarrow> k < length evs \<Longrightarrow>
   \<forall>i<k. evs ! i = PublishOK (Confirmation True) \<Longrightarrow> part_failure (evs ! k) = Some e \<Longrightarrow>
     \<exists>a'. publish_parts a parts evs = PartsDone (Some e) a'
        \<and> published a' = published a @ take (Suc k) parts
        \<and> stats a' mSucc = stats a mSucc + int k
        \<and> stats a' mErr = stats a mErr + 1
        \<and> ((\<exists>cl. evs ! k = PublishFails e cl) \<longrightarrow> amqpChan a' = None)
        \<and> (evs ! k = PublishOK (Confirmation False) \<longrightarrow> amqpChan a' = amqpChan a \<and> conn a' = conn a)"
proof (induction k arbitrary: a parts evs)
  case 0
  then obtain p ps ev evs' where [simp]: "parts = p # ps" "evs = ev # evs'"
    by (cases parts; cases evs) auto
  from 0 show ?case
    by (cases ev rule: part_failure.cases) (auto simp: Let_def split: if_splits)
next
  case (Suc k)
  then obtain p ps ev evs' where [simp]: "parts = p # ps" "evs = ev # evs'"
    by (cases parts; cases evs) auto
  from Suc.prems have ev: "ev = PublishOK (Confirmation True)" by auto
  let ?a1 = "Incr mSucc 1 (a\<lparr>published := published a @ [p]\<rparr>)"
  have ch: "amqpChan ?a1 \<noteq> None" using Suc.prems by simp
  have "\<forall>i<k. evs' ! i = PublishOK (Confirmation True)"
    using Suc.prems(4) by auto
  from Suc.IH [OF ch _ _ this, of ps] Suc.prems
  obtain a' where "publish_parts ?a1 ps evs' = PartsDone (Some e) a'"
    "published a' = published ?a1 @ take (Suc k) ps"
    "stats a' mSucc = stats ?a1 mSucc + int k"
    "stats a' mErr = stats ?a1 mErr + 1"
    "(\<exists>cl. evs' ! k = PublishFails e cl) \<longrightarrow> amqpChan a' = None"
    "evs' ! k = PublishOK (Confirmation False) \<longrightarrow> amqpChan a' = amqpChan ?a1 \<and> conn a' = conn ?a1"
    by auto
  with Suc.prems ev show ?case by (auto simp: Let_def)
qed


section \<open>The AMQP output: serving one transaction\<close>

lemmas sample_defs = connected_AMQP_def NewAMQP_def two_parts_def three_parts_def ack_def nack_def
  NewMessage_def NewSimpleResponse_def zero_stats_def

lemma serve_transaction_example:
  "serve_transaction connected_AMQP two_parts [ack, ack] ResponseTaken
     = Next (connected_AMQP\<lparr>stats := zero_stats(mCount := 1, mSucc := 2),
               published := [[104, 105], [33]], responses := [(9, SimpleResponse None)]\<rparr>)"
  by (simp add: serve_transaction_def sample_defs Incr_def Let_def fun_eq_iff)










text \<open>
  C2. Parts are counted from 0. If the parts before part \<open>k\<close> were published and
  positively confirmed and part \<open>k\<close> fails with \<open>e\<close> (its publish call returns the error \<open>e\<close>,
  or its confirmation is negative and \<open>e\<close> is \<open>ErrNoAck\<close>), then the bodies handed to
  \<open>Publish\<close> are those of the parts up to \<open>k\<close> and no other, and the response written (when
  the reader takes it) reports \<open>e\<close>; if \<open>closeChan\<close> fires first, or the reader never comes,
  none is written.
\<close>

theorem serve_transaction_failure_stops:
  assumes "amqpChan a \<noteq> None"
    and "k < length (GetAll (Payload ts))"
    and "k < length pevs"
    and "\<forall>i<k. pevs ! i = PublishOK (Confirmation True)"
    and "part_failure (pevs ! k) = Some e"
  shows "published (flow_state (serve_transaction a ts pevs rsp))
           = published a @ take (Suc k) (GetAll (Payload ts))
       \<and> (rsp = ResponseTaken \<longrightarrow>
            responses (flow_state (serve_transaction a ts pevs rsp))
              = responses a @ [(ResponseChan ts, NewSimpleResponse (Some e))])
       \<and> (rsp \<noteq> ResponseTaken \<longrightarrow>
            responses (flow_state (serve_transaction a ts pevs rsp)) = responses a)"
proof -
  have ch: "amqpChan (Incr mCount 1 a) \<noteq> None" using assms(1) by simp
  from publish_parts_fails_at [OF ch assms(2) assms(3) assms(4) assms(5)]
  obtain a' where "publish_parts (Incr mCount 1 a) (GetAll (Payload ts)) pevs = PartsDone (Some e) a'"
    and "published a' = published (Incr mCount 1 a) @ take (Suc k) (GetAll (Payload ts))"
    by blast
  moreover have "responses a' = responses a"
    using publish_parts_frame [of "Incr mCount 1 a" "GetAll (Payload ts)" pevs] calculation(1)
    by simp
  ultimately show ?thesis
    by (cases rsp) (simp_all add: serve_transaction_def)
qed

theorem serve_transaction_failure_stops_witness:
  "amqpChan connected_AMQP \<noteq> None
   \<and> 1 < length (GetAll (Payload three_parts))
   \<and> 1 < length [ack, nack, ack]
   \<and> [ack, nack, ack] ! 0 = PublishOK (Confirmation True)
   \<and> part_failure ([ack, nack, ack] ! 1) = Some ErrNoAck
   \<and> published (flow_state (serve_transaction connected_AMQP three_parts [ack, nack, ack] ResponseTaken))
       = [[1], [2]]
   \<and> responses (flow_state (serve_transaction connected_AMQP three_parts [ack, nack, ack] ResponseTaken))
       = [(10, SimpleResponse (Some ErrNoAck))]"
proof -
  have h1: "amqpChan connected_AMQP \<noteq> None" by (simp add: sample_defs)
  have h2: "1 < length (GetAll (Payload three_parts))" by (simp add: sample_defs)
  have h3: "1 < length [ack, nack, ack]" by simp
  have h4: "\<forall>i<1. [ack, nack, ack] ! i = PublishOK (Confirmation True)" by (simp add: sample_defs)
  have h5: "part_failure ([ack, nack, ack] ! 1) = Some ErrNoAck" by (simp add: sample_defs)
  have p: "published connected_AMQP = []" "responses connected_AMQP = []"
    "GetAll (Payload three_parts) = [[1], [2], [3]]" "ResponseChan three_parts = 10"
    by (simp_all add: sample_defs)
  from serve_transaction_failure_stops [OF h1 h2 h3 h4 h5, of ResponseTaken] p
  have "published (flow_state (serve_transaction connected_AMQP three_parts [ack, nack, ack] ResponseTaken))
       = [[1], [2]]
   \<and> responses (flow_state (serve_transaction connected_AMQP three_parts [ack, nack, ack] ResponseTaken))
       = [(10, SimpleResponse (Some ErrNoAck))]"
    by (simp add: NewSimpleResponse_def)
  moreover have "[ack, nack, ack] ! 0 = PublishOK (Confirmation True)"
    by (simp add: sample_defs)
  ultimately show ?thesis using h1 h2 h3 h5 by blast
qed





section \<open>The AMQP output: the loop as a whole\<close>

lemma connect_frame:
  "connect a r = (a1, e) \<Longrightarrow>
     running a1 = running a \<and> transactions a1 = transactions a \<and> closedChan a1 = closedChan a
     \<and> closeChan a1 = closeChan a \<and> published a1 = published a \<and> responses a1 = responses a
     \<and> stats a1 = stats a"
  by (cases r) auto

lemma initial_connect_frame:
  "running (flow_state (initial_connect a evs)) = running a
   \<and> transactions (flow_state (initial_connect a evs)) = transactions a
   \<and> closedChan (flow_state (initial_connect a evs)) = closedChan a
   \<and> closeChan (flow_state (initial_connect a evs)) = closeChan a
   \<and> published (flow_state (initial_connect a evs)) = published a
   \<and> responses (flow_state (initial_connect a evs)) = responses a
   \<and> stats (flow_state (initial_connect a evs)) = stats a"
proof (induction evs arbitrary: a)
  case Nil
  show ?case by simp
next
  case (Cons ev evs)
  obtain res bev where ev: "ev = (res, bev)" by (cases ev)
  obtain a1 e where c: "connect a res = (a1, e)" by (cases "connect a res")
  note f = connect_frame [OF c]
  show ?case
  proof (cases e)
    case None
    with ev c f show ?thesis by simp
  next
    case (Some err)
    with ev c f Cons [of a1] show ?thesis by (cases bev) simp_all
  qed
qed

lemma initial_connect_ends:
  "initial_connect a evs \<noteq> Panic a'
   \<and> (initial_connect a evs = Next a' \<longrightarrow> amqpChan a' \<noteq> None)
   \<and> (initial_connect a evs = Return path a' \<longrightarrow> path = CloseDuringConnect)"
proof (induction evs arbitrary: a)
  case Nil
  show ?case by simp
next
  case (Cons ev evs)
  obtain res bev where ev: "ev = (res, bev)" by (cases ev)
  obtain a1 e where c: "connect a res = (a1, e)" by (cases "connect a res")
  show ?case
  proof (cases e)
    case None
    with ev c connect_ok_chan [of a res a1] show ?thesis by auto
  next
    case (Some err)
    with ev c Cons [of a1] show ?thesis by (cases bev) simp_all
  qed
qed

lemma reconnect_loop_frame:
  "running (flow_state (reconnect_loop a evs)) = running a
   \<and> transactions (flow_state (reconnect_loop a evs)) = transactions a
   \<and> closedChan (flow_state (reconnect_loop a evs)) = closedChan a
   \<and> closeChan (flow_state (reconnect_loop a evs)) = closeChan a
   \<and> published (flow_state (reconnect_loop a evs)) = published a
   \<and> responses (flow_state (reconnect_loop a evs)) = responses a"
proof (induction evs arbitrary: a)
  case Nil
  show ?case by simp
next
  case (Cons ev evs)
  obtain res bev where ev: "ev = (res, bev)" by (cases ev)
  obtain a1 e where c: "connect a res = (a1, e)" by (cases "connect a res")
  note f = connect_frame [OF c]
  show ?case
  proof (cases "amqpChan a = None")
    case False
    with ev show ?thesis by auto
  next
    case True
    show ?thesis
    proof (cases e)
      case None
      with True ev c f Cons [of "Incr mReconSucc 1 a1"] show ?thesis by simp
    next
      case (Some err)
      with True ev c f Cons [of "Incr mReconErr 1 a1"] show ?thesis by (cases bev) simp_all
    qed
  qed
qed

lemma reconnect_loop_ends:
  "reconnect_loop a evs \<noteq> Panic a'
   \<and> (reconnect_loop a evs = Next a' \<longrightarrow> amqpChan a' \<noteq> None)
   \<and> (reconnect_loop a evs = Return path a' \<longrightarrow> path = CloseDuringReconnect)"
proof (induction evs arbitrary: a)
  case Nil
  show ?case by auto
next
  case (Cons ev evs)
  obtain res bev where ev: "ev = (res, bev)" by (cases ev)
  obtain a1 e where c: "connect a res = (a1, e)" by (cases "connect a res")
  show ?case
  proof (cases "amqpChan a = None")
    case False
    with ev show ?thesis by auto
  next
    case True
    show ?thesis
    proof (cases e)
      case None
      with True ev c Cons [of "Incr mReconSucc 1 a1"] show ?thesis by simp
    next
      case (Some err)
      with True ev c Cons [of "Incr mReconErr 1 a1"] show ?thesis by (cases bev) simp_all
    qed
  qed
qed

lemma serve_transaction_frame:
  "running (flow_state (serve_transaction a ts pevs rsp)) = running a
   \<and> transactions (flow_state (serve_transaction a ts pevs rsp)) = transactions a
   \<and> closedChan (flow_state (serve_transaction a ts pevs rsp)) = closedChan a
   \<and> closeChan (flow_state (serve_transaction a ts pevs rsp)) = closeChan a"
  using publish_parts_frame [of "Incr mCount 1 a" "GetAll (Payload ts)" pevs]
  by (cases "publish_parts (Incr mCount 1 a) (GetAll (Payload ts)) pevs"; cases rsp)
     (simp_all add: serve_transaction_def)

lemma serve_transaction_no_panic:
  "amqpChan a \<noteq> None \<Longrightarrow> serve_transaction a ts pevs rsp \<noteq> Panic a'"
  using publish_parts_no_panic [of "Incr mCount 1 a" "GetAll (Payload ts)" pevs]
  by (cases "publish_parts (Incr mCount 1 a) (GetAll (Payload ts)) pevs"; cases rsp)
     (simp_all add: serve_transaction_def)

lemma pass_body_frame:
  "running (flow_state (pass_body a p)) = running a
   \<and> transactions (flow_state (pass_body a p)) = transactions a
   \<and> closedChan (flow_state (pass_body a p)) = closedChan a
   \<and> closeChan (flow_state (pass_body a p)) = closeChan a"
proof (cases "reconnect_loop a (p_connects p)")
  case (Next a1)
  with reconnect_loop_frame [of a "p_connects p"] serve_transaction_frame [of a1]
  show ?thesis by (cases "p_receive p") (simp_all add: pass_body_def)
qed (use reconnect_loop_frame [of a "p_connects p"] in \<open>simp_all add: pass_body_def\<close>)

lemma pass_body_no_panic: "pass_body a p \<noteq> Panic a'"
proof (cases "reconnect_loop a (p_connects p)")
  case (Next a1)
  with reconnect_loop_ends [of a "p_connects p" a1] serve_transaction_no_panic [of a1]
  show ?thesis by (cases "p_receive p") (simp_all add: pass_body_def)
qed (use reconnect_loop_ends [of a "p_connects p"] in \<open>simp_all add: pass_body_def\<close>)

text \<open>
  A transaction the service loop receives is served from a state whose \<open>amqpChan\<close> is not
  nil: the reconnect loop before the select sees to it.
\<close>

lemma pass_body_serves:
  "reconnect_loop a (p_connects p) = Next a1 \<Longrightarrow> p_receive p = Receive ts \<Longrightarrow>
     amqpChan a1 \<noteq> None \<and> responses a1 = responses a
     \<and> pass_body a p = serve_transaction a1 ts (p_publishes p) (p_response p)"
  using reconnect_loop_ends [of a "p_connects p" a1] reconnect_loop_frame [of a "p_connects p"]
  by (simp add: pass_body_def)

lemma service_loop_frame:
  "running (flow_state (service_loop a ps)) = running a
   \<and> transactions (flow_state (service_loop a ps)) = transactions a
   \<and> closedChan (flow_state (service_loop a ps)) = closedChan a
   \<and> closeChan (flow_state (service_loop a ps)) = closeChan a"
proof (induction ps arbitrary: a)
  case Nil
  show ?case by simp
next
  case (Cons p ps)
  show ?case
    using pass_body_frame [of a p] Cons [of "flow_state (pass_body a p)"]
    by (cases "pass_body a p") simp_all
qed

lemma service_loop_ends:
  "service_loop a ps \<noteq> Panic a' \<and> service_loop a ps \<noteq> Next a'"
proof (induction ps arbitrary: a)
  case Nil
  show ?case by simp
next
  case (Cons p ps)
  show ?case
    using pass_body_no_panic [of a p] Cons
    by (cases "pass_body a p") simp_all
qed

lemma loop_body_frame:
  "running (flow_state (loop_body a s)) = running a
   \<and> transactions (flow_state (loop_body a s)) = transactions a
   \<and> closedChan (flow_state (loop_body a s)) = closedChan a
   \<and> closeChan (flow_state (loop_body a s)) = closeChan a"
  using initial_connect_frame [of "Incr mRunning 1 a" "s_connects s"]
    service_loop_frame [of "flow_state (initial_connect (Incr mRunning 1 a) (s_connects s))"]
  by (cases "initial_connect (Incr mRunning 1 a) (s_connects s)") (simp_all add: loop_body_def)

lemma loop_body_ends:
  "loop_body a s \<noteq> Panic a' \<and> loop_body a s \<noteq> Next a'"
  using initial_connect_ends [of "Incr mRunning 1 a" "s_connects s"] service_loop_ends
  by (cases "initial_connect (Incr mRunning 1 a) (s_connects s)") (simp_all add: loop_body_def)

lemma deferred_runs:
  "closedChan a = ChanOpen \<Longrightarrow>
     \<exists>a'. deferred a cl = Some a' \<and> running a' = 0 \<and> amqpChan a' = None
       \<and> conn a' = (if cl = None then None else conn a)
       \<and> closedChan a' = ChanClosed \<and> closeChan a' = closeChan a
       \<and> stats a' = (stats a)(mRunning := stats a mRunning - 1)
       \<and> responses a' = responses a \<and> published a' = published a"
  by (simp add: deferred_def Let_def disconnect_conn fun_eq_iff)

lemmas run_defs = loop_def loop_body_def pass_body_def serve_transaction_def deferred_def
  disconnect_def Incr_def Decr_def Let_def serving_def exited_by_def exited_state_def

lemma sample_script_exits:
  "exited_by (loop (NewAMQP zero_stats) (sample_script path)) = Some path"
  by (cases path) (simp_all add: run_defs sample_defs)

lemma exited_by_Some:
  "exited_by r = Some path \<Longrightarrow> \<exists>a'. r = Exited path a' \<and> exited_state r = Some a'"
  by (cases r) (simp_all add: exited_by_def exited_state_def)

text \<open>
  C6. From a state whose \<open>closedChan\<close> is open (as \<open>NewAMQP\<close> makes it), whatever the
  environment does: the loop never panics; every \<open>return\<close> of its body (close request
  during the first connect, during a reconnect, while receiving, while waiting for a
  confirmation or for the response to be taken, the transactions channel closed, the
  \<open>running\<close> flag found cleared) is followed by the deferred function; after it \<open>running\<close> is
  0, \<open>amqpChan\<close> is nil (and \<open>conn\<close> too, unless \<open>conn.Close()\<close> reported an error) and
  \<open>closedChan\<close> is closed. The one \<open>close\<close> is the one in the deferred function: as long as
  the loop has not returned, \<open>closedChan\<close> is open.
\<close>

theorem loop_exit_runs_deferred:
  assumes "closedChan a = ChanOpen"
  shows "loop a s \<noteq> Crashed
    \<and> (\<forall>path a1. loop_body a s = Return path a1 \<longrightarrow>
          (\<exists>a2. deferred a1 (s_close s) = Some a2 \<and> loop a s = Exited path a2))
    \<and> (\<forall>path a'. loop a s = Exited path a' \<longrightarrow>
          running a' = 0 \<and> amqpChan a' = None \<and> (s_close s = None \<longrightarrow> conn a' = None)
          \<and> closedChan a' = ChanClosed)
    \<and> (\<forall>a'. loop a s = StillRunning a' \<longrightarrow> closedChan a' = ChanOpen)"
proof -
  have open_after: "closedChan (flow_state (loop_body a s)) = ChanOpen"
    using loop_body_frame [of a s] assms by simp
  show ?thesis
  proof (cases "loop_body a s")
    case (Next a1)
    with loop_body_ends [of a s a1] show ?thesis by simp
  next
    case (Panic a1)
    with loop_body_ends [of a s a1] show ?thesis by simp
  next
    case (Pending a1)
    with open_after show ?thesis by (simp add: loop_def)
  next
    case (Return path a1)
    with open_after have "closedChan a1 = ChanOpen" by simp
    from deferred_runs [OF this, of "s_close s"]
    obtain a2 where "deferred a1 (s_close s) = Some a2" "running a2 = 0" "amqpChan a2 = None"
      "conn a2 = (if s_close s = None then None else conn a1)" "closedChan a2 = ChanClosed"
      by blast
    with Return show ?thesis by (simp add: loop_def)
  qed
qed



theorem loop_exit_runs_deferred_witness:
  "closedChan (NewAMQP zero_stats) = ChanOpen
   \<and> (\<forall>path.
        exited_by (loop (NewAMQP zero_stats) (sample_script path)) = Some path
        \<and> map_option running (exited_state (loop (NewAMQP zero_stats) (sample_script path)))
            = Some 0
        \<and> map_option amqpChan (exited_state (loop (NewAMQP zero_stats) (sample_script path)))
            = Some None
        \<and> map_option conn (exited_state (loop (NewAMQP zero_stats) (sample_script path)))
            = Some None
        \<and> map_option closedChan (exited_state (loop (NewAMQP zero_stats) (sample_script path)))
            = Some ChanClosed)"
proof -
  have h: "closedChan (NewAMQP zero_stats) = ChanOpen"
    by (simp add: NewAMQP_def)
  have "exited_by (loop (NewAMQP zero_stats) (sample_script path)) = Some path
        \<and> map_option running (exited_state (loop (NewAMQP zero_stats) (sample_script path)))
            = Some 0
        \<and> map_option amqpChan (exited_state (loop (NewAMQP zero_stats) (sample_script path)))
            = Some None
        \<and> map_option conn (exited_state (loop (NewAMQP zero_stats) (sample_script path)))
            = Some None
        \<and> map_option closedChan (exited_state (loop (NewAMQP zero_stats) (sample_script path)))
            = Some ChanClosed" for path
  proof -
    from exited_by_Some [OF sample_script_exits [of path]]
    obtain a' where e: "loop (NewAMQP zero_stats) (sample_script path) = Exited path a'"
      "exited_state (loop (NewAMQP zero_stats) (sample_script path)) = Some a'"
      by blast
    have c: "s_close (sample_script path) = None"
      by (cases path) simp_all
    from loop_exit_runs_deferred [OF h, of "sample_script path"] e(1) c
    have "running a' = 0 \<and> amqpChan a' = None \<and> conn a' = None \<and> closedChan a' = ChanClosed"
      by simp
    with e sample_script_exits [of path] show ?thesis by simp
  qed
  with h show ?thesis by blast
qed

section \<open>The AMQP output: the reconnect counters\<close>

text \<open>
  C9, as the claim states it, fails. The output is started against a transport whose
  \<open>connect\<close> fails twice and then succeeds; it serves a transaction (a response is
  written) and then the transactions channel is closed. Both reconnect counters are 0 at
  the end, not 2 and 1: the first connect loop logs the failure and counts nothing.
\<close>

theorem startup_counts_no_reconnect:
  "map_option reconnect_counts (exited_state (loop (NewAMQP zero_stats) fails_twice_then_connects))
     = Some (0, 0)
   \<and> map_option reconnect_counts (exited_state (loop (NewAMQP zero_stats) fails_twice_then_connects))
     \<noteq> Some (2, 1)
   \<and> map_option responses (exited_state (loop (NewAMQP zero_stats) fails_twice_then_connects))
     = Some [(9, SimpleResponse None)]"
  by (simp add: fails_twice_then_connects_def reconnect_counts_def run_defs sample_defs)


text \<open>
  C9, amended. At start-up, when \<open>connect\<close> fails twice (in any of its four steps) and then
  succeeds, the first loop retries after each wait, leaves every counter as it was and goes
  on to the service loop with the new channel. In the service loop, when \<open>amqpChan\<close> is nil
  (the session was dropped) and \<open>connect\<close> fails twice while dialling or opening the channel
  and then succeeds, \<open>mReconErr\<close> has grown by 2 and \<open>mReconSucc\<close> by 1, no other counter
  has changed, and the pass goes on to serve the transaction it receives.
\<close>

theorem reconnect_counters:
  "(connect_fails r1 \<and> connect_fails r2 \<longrightarrow>
      (\<exists>a1. initial_connect a
               ((r1, TimerElapsed) # (r2, TimerElapsed) # (ConnectOK c ch cf, b) # evs) = Next a1
         \<and> stats a1 = stats a \<and> amqpChan a1 = Some ch))
   \<and> (amqpChan a = None \<and> fails_without_channel r1 \<and> fails_without_channel r2
       \<and> p_connects p = (r1, TimerElapsed) # (r2, TimerElapsed) # (ConnectOK c ch cf, b) # evs \<longrightarrow>
      (\<exists>a1. reconnect_loop a (p_connects p) = Next a1
         \<and> stats a1 = (stats a)(mReconErr := stats a mReconErr + 2,
                                 mReconSucc := stats a mReconSucc + 1)
         \<and> amqpChan a1 = Some ch
         \<and> (\<forall>ts. p_receive p = Receive ts \<longrightarrow>
               pass_body a p = serve_transaction a1 ts (p_publishes p) (p_response p))))"
proof (intro conjI impI)
  assume "connect_fails r1 \<and> connect_fails r2"
  then show "\<exists>a1. initial_connect a
               ((r1, TimerElapsed) # (r2, TimerElapsed) # (ConnectOK c ch cf, b) # evs) = Next a1
         \<and> stats a1 = stats a \<and> amqpChan a1 = Some ch"
    by (cases r1 rule: connect_fails.cases; cases r2 rule: connect_fails.cases) simp_all
next
  assume "amqpChan a = None \<and> fails_without_channel r1 \<and> fails_without_channel r2
       \<and> p_connects p = (r1, TimerElapsed) # (r2, TimerElapsed) # (ConnectOK c ch cf, b) # evs"
  then show "\<exists>a1. reconnect_loop a (p_connects p) = Next a1
         \<and> stats a1 = (stats a)(mReconErr := stats a mReconErr + 2,
                                 mReconSucc := stats a mReconSucc + 1)
         \<and> amqpChan a1 = Some ch
         \<and> (\<forall>ts. p_receive p = Receive ts \<longrightarrow>
               pass_body a p = serve_transaction a1 ts (p_publishes p) (p_response p))"
    by (cases r1 rule: fails_without_channel.cases; cases r2 rule: fails_without_channel.cases;
        cases evs)
       (auto simp: pass_body_def fun_eq_iff Incr_def)
qed



theorem reconnect_counters_witness:
  "connect_fails (DialFails None ''refused'')
   \<and> connect_fails (ConfirmFails 4 5 ''refused'')
   \<and> reconnect_counts (flow_state (initial_connect (NewAMQP zero_stats)
         [(DialFails None ''refused'', TimerElapsed), (ConfirmFails 4 5 ''refused'', TimerElapsed),
          (ConnectOK 1 2 3, TimerElapsed)])) = (0, 0)
   \<and> amqpChan (fst (disconnect connected_AMQP None)) = None
   \<and> fails_without_channel (DialFails None ''refused'')
   \<and> fails_without_channel (ChannelFails 4 ''refused'')
   \<and> reconnect_counts (flow_state (reconnect_loop (fst (disconnect connected_AMQP None))
         [(DialFails None ''refused'', TimerElapsed), (ChannelFails 4 ''refused'', TimerElapsed),
          (ConnectOK 5 6 7, TimerElapsed)])) = (2, 1)"
proof -
  have h1: "connect_fails (DialFails None ''refused'') \<and> connect_fails (ConfirmFails 4 5 ''refused'')"
    by simp
  from reconnect_counters [THEN conjunct1, rule_format, OF h1,
      of "NewAMQP zero_stats" 1 2 3 TimerElapsed "[]"]
  have r1: "reconnect_counts (flow_state (initial_connect (NewAMQP zero_stats)
         [(DialFails None ''refused'', TimerElapsed), (ConfirmFails 4 5 ''refused'', TimerElapsed),
          (ConnectOK 1 2 3, TimerElapsed)])) = (0, 0)"
    by (auto simp: reconnect_counts_def NewAMQP_def zero_stats_def)
  let ?p = "serving\<lparr>p_connects :=
         [(DialFails None ''refused'', TimerElapsed), (ChannelFails 4 ''refused'', TimerElapsed),
          (ConnectOK 5 6 7, TimerElapsed)]\<rparr>"
  have h2: "amqpChan (fst (disconnect connected_AMQP None)) = None
       \<and> fails_without_channel (DialFails None ''refused'')
       \<and> fails_without_channel (ChannelFails 4 ''refused'')
       \<and> p_connects ?p = (DialFails None ''refused'', TimerElapsed)
           # (ChannelFails 4 ''refused'', TimerElapsed) # (ConnectOK 5 6 7, TimerElapsed) # []"
    by simp
  have z: "stats (fst (disconnect connected_AMQP None)) = zero_stats"
    by (simp add: sample_defs fun_eq_iff)
  from reconnect_counters [THEN conjunct2, rule_format, OF h2] z
  have r2: "reconnect_counts (flow_state (reconnect_loop (fst (disconnect connected_AMQP None))
         [(DialFails None ''refused'', TimerElapsed), (ChannelFails 4 ''refused'', TimerElapsed),
          (ConnectOK 5 6 7, TimerElapsed)])) = (2, 1)"
    by (auto simp: reconnect_counts_def zero_stats_def)
  from h1 r1 h2 r2 show ?thesis by blast
qed

section \<open>The AMQP output: CloseAsync\<close>

lemma CloseAsync_not_running:
  "running a \<noteq> 1 \<Longrightarrow> CloseAsync_times n a = Some a"
  by (induction n) (simp_all add: AMQP_CloseAsync_def)

lemma CloseAsync_times_result:
  "closeChan a = ChanOpen \<Longrightarrow>
     CloseAsync_times n a
       = Some (if running a = 1 \<and> 0 < n then a\<lparr>running := 0, closeChan := ChanClosed\<rparr> else a)"
proof (cases n)
  case 0
  then show ?thesis by simp
next
  case (Suc m)
  assume "closeChan a = ChanOpen"
  with Suc CloseAsync_not_running [of "a\<lparr>running := 0, closeChan := ChanClosed\<rparr>" m]
    CloseAsync_not_running [of a m]
  show ?thesis by (simp add: AMQP_CloseAsync_def)
qed

lemma count_list_update:
  "i < length xs \<Longrightarrow>
     count_list (xs[i := y]) z + (if xs ! i = z then 1 else 0)
       = count_list xs z + (if y = z then 1 else 0)"
proof (induction xs arbitrary: i)
  case Nil
  then show ?case by simp
next
  case (Cons x xs)
  show ?case
  proof (cases i)
    case 0
    then show ?thesis by simp
  next
    case (Suc j)
    with Cons.prems have "j < length xs" by simp
    from Cons.IH [OF this] Suc show ?thesis by (auto split: if_splits)
  qed
qed

lemma count_list_nth: "i < length xs \<Longrightarrow> xs ! i = z \<Longrightarrow> 0 < count_list xs z"
  using count_list_0_iff [of xs z] nth_mem [of i xs] by auto

lemma CloseAsync_step_inv:
  assumes "close_inv strict a0 st" and "\<not> (strict \<and> ev = DeferredStore)"
  shows "\<exists>st'. CloseAsync_step ev st = Some st' \<and> close_inv strict a0 st'
           \<and> length (snd st') = length (snd st)"
proof -
  obtain a pcs where st: "st = (a, pcs)" by (cases st)
  from assms st
  have eq: "a0\<lparr>running := 0, closeChan := ChanOpen\<rparr> = a\<lparr>running := 0, closeChan := ChanOpen\<rparr>"
    by (simp add: close_inv_def)
  show ?thesis
  proof (cases ev)
    case DeferredStore
    with assms(2) have ns: "\<not> strict" by simp
    show ?thesis
    proof (cases "running a = 1")
      case True
      with assms st have "set pcs \<subseteq> {AtCAS}" and "closeChan a = ChanOpen" and "running a0 = 1"
        by (simp_all add: close_inv_def)
      moreover from this have "count_list pcs AtClose = 0"
        by (auto simp: count_list_0_iff)
      ultimately show ?thesis using DeferredStore st eq ns
        by (simp add: close_inv_def)
    next
      case False
      with assms(1) DeferredStore st eq ns show ?thesis
        by (simp add: close_inv_def)
    qed
  next
    case (Call i)
    show ?thesis
    proof (cases "i < length pcs")
      case False
      with assms Call st show ?thesis by simp
    next
      case True
      show ?thesis
      proof (cases "pcs ! i")
        case Returned
        with True assms Call st show ?thesis by simp
      next
        case AtCAS
        show ?thesis
        proof (cases "running a = 1")
          case r: True
          with assms st have all: "set pcs \<subseteq> {AtCAS}" and o: "closeChan a = ChanOpen"
            and r0: "running a0 = 1"
            by (simp_all add: close_inv_def)
          from all have "count_list pcs AtClose = 0"
            by (auto simp: count_list_0_iff)
          with count_list_update [OF True, of AtClose AtClose] AtCAS
          have "count_list (pcs[i := AtClose]) AtClose = 1" by simp
          with True AtCAS Call r st o r0 eq show ?thesis
            by (simp add: close_inv_def)
        next
          case r: False
          from count_list_update [OF True, of Returned AtClose] AtCAS
          have "count_list (pcs[i := Returned]) AtClose = count_list pcs AtClose" by simp
          with True AtCAS Call r st assms(1) show ?thesis
            by (auto simp: close_inv_def split: if_splits)
        qed
      next
        case AtClose
        from count_list_nth [OF True AtClose] have pos: "0 < count_list pcs AtClose" .
        have r: "running a \<noteq> 1"
        proof
          assume "running a = 1"
          with assms st have "set pcs \<subseteq> {AtCAS}" by (simp add: close_inv_def)
          with nth_mem [OF True] AtClose show False by auto
        qed
        with assms(1) st pos have o: "closeChan a = ChanOpen" and r0: "running a0 = 1"
          and c1: "count_list pcs AtClose = 1"
          by (cases "closeChan a"; auto simp: close_inv_def split: if_splits)+
        from r r0 assms(1) st have ra: "strict \<longrightarrow> running a = 0"
          by (auto simp: close_inv_def split: if_splits)
        from count_list_update [OF True, of Returned AtClose] AtClose c1
        have "count_list (pcs[i := Returned]) AtClose = 0" by simp
        with True AtClose Call r st o r0 ra eq show ?thesis
          by (auto simp: close_inv_def)
      qed
    qed
  qed
qed

lemma CloseAsync_run_inv:
  "close_inv strict a0 st \<Longrightarrow> \<not> (strict \<and> DeferredStore \<in> set sched) \<Longrightarrow>
     \<exists>st'. CloseAsync_run sched st = Some st' \<and> close_inv strict a0 st'
       \<and> length (snd st') = length (snd st)"
proof (induction sched arbitrary: st)
  case Nil
  then show ?case by simp
next
  case (Cons ev sched)
  from Cons.prems(2) have "\<not> (strict \<and> ev = DeferredStore)" by auto
  from CloseAsync_step_inv [OF Cons.prems(1) this]
  obtain st1 where s: "CloseAsync_step ev st = Some st1" "close_inv strict a0 st1"
    "length (snd st1) = length (snd st)" by blast
  from Cons.prems(2) have "\<not> (strict \<and> DeferredStore \<in> set sched)" by auto
  from Cons.IH [OF s(2) this] s show ?case by auto
qed

lemma close_inv_start:
  "closeChan a = ChanOpen \<Longrightarrow> close_inv strict a (a, replicate n AtCAS)"
  by (auto simp: close_inv_def count_list_0_iff)

lemma CloseAsync_step_owed:
  assumes "running (fst st) \<noteq> 1" and "closes_owed st \<le> 1"
  shows "\<exists>st'. CloseAsync_step ev st = Some st' \<and> running (fst st') \<noteq> 1
           \<and> (running (fst st) = 0 \<longrightarrow> running (fst st') = 0)
           \<and> closes_owed st' = closes_owed st \<and> length (snd st') = length (snd st)"
proof -
  obtain a pcs where st: "st = (a, pcs)" by (cases st)
  show ?thesis
  proof (cases ev)
    case DeferredStore
    with assms st show ?thesis by (simp add: closes_owed_def)
  next
    case (Call i)
    show ?thesis
    proof (cases "i < length pcs")
      case False
      with assms Call st show ?thesis by simp
    next
      case True
      show ?thesis
      proof (cases "pcs ! i")
        case Returned
        with True assms Call st show ?thesis by simp
      next
        case AtCAS
        from count_list_update [OF True, of Returned AtClose] AtCAS
        have "count_list (pcs[i := Returned]) AtClose = count_list pcs AtClose" by simp
        with True AtCAS Call st assms show ?thesis
          by (simp add: closes_owed_def)
      next
        case AtClose
        from count_list_nth [OF True AtClose] have pos: "0 < count_list pcs AtClose" .
        with assms(2) st have o: "closeChan a = ChanOpen" and c1: "count_list pcs AtClose = 1"
          by (cases "closeChan a"; auto simp: closes_owed_def split: if_splits)+
        from count_list_update [OF True, of Returned AtClose] AtClose c1
        have "count_list (pcs[i := Returned]) AtClose = 0" by simp
        with True AtClose Call st o c1 assms(1) show ?thesis
          by (simp add: closes_owed_def)
      qed
    qed
  qed
qed

lemma CloseAsync_run_owed:
  "running (fst st) \<noteq> 1 \<Longrightarrow> closes_owed st \<le> 1 \<Longrightarrow>
     \<exists>st'. CloseAsync_run sched st = Some st' \<and> running (fst st') \<noteq> 1
       \<and> (running (fst st) = 0 \<longrightarrow> running (fst st') = 0)
       \<and> closes_owed st' = closes_owed st \<and> length (snd st') = length (snd st)"
proof (induction sched arbitrary: st)
  case Nil
  then show ?case by simp
next
  case (Cons ev sched)
  from CloseAsync_step_owed [OF Cons.prems, of ev]
  obtain st1 where s: "CloseAsync_step ev st = Some st1" "running (fst st1) \<noteq> 1"
    "closes_owed st1 = closes_owed st" "length (snd st1) = length (snd st)"
    "running (fst st) = 0 \<longrightarrow> running (fst st1) = 0" by blast
  with Cons.prems(2) have "closes_owed st1 \<le> 1" by simp
  from Cons.IH [OF s(2) this] s show ?case by auto
qed

lemma CloseAsync_run_first:
  "running a = 1 \<Longrightarrow> closeChan a = ChanOpen \<Longrightarrow> set pcs \<subseteq> {AtCAS} \<Longrightarrow>
     \<exists>st'. CloseAsync_run sched (a, pcs) = Some st'
       \<and> closes_owed st' = (if wins_first (length pcs) sched then 1 else 0)
       \<and> (wins_first (length pcs) sched \<longrightarrow> running (fst st') = 0)"
proof (induction sched)
  case Nil
  then show ?case by (auto simp: closes_owed_def count_list_0_iff)
next
  case (Cons ev sched)
  from Cons.prems(3) have c0: "count_list pcs AtClose = 0"
    by (auto simp: count_list_0_iff)
  show ?case
  proof (cases ev)
    case DeferredStore
    have "running (fst (a\<lparr>running := 0\<rparr>, pcs)) \<noteq> 1" by simp
    moreover have "closes_owed (a\<lparr>running := 0\<rparr>, pcs) \<le> 1"
      using c0 Cons.prems(2) by (simp add: closes_owed_def)
    ultimately obtain st' where "CloseAsync_run sched (a\<lparr>running := 0\<rparr>, pcs) = Some st'"
      "closes_owed st' = closes_owed (a\<lparr>running := 0\<rparr>, pcs)"
      using CloseAsync_run_owed [of "(a\<lparr>running := 0\<rparr>, pcs)" sched] by blast
    with DeferredStore c0 Cons.prems(2) show ?thesis
      by (simp add: closes_owed_def)
  next
    case (Call i)
    show ?thesis
    proof (cases "i < length pcs")
      case False
      with Call Cons.IH [OF Cons.prems] show ?thesis by simp
    next
      case True
      from nth_mem [OF True] Cons.prems(3) have at: "pcs ! i = AtCAS"
        by blast
      from count_list_update [OF True, of AtClose AtClose] at c0
      have c1: "count_list (pcs[i := AtClose]) AtClose = 1" by simp
      let ?st = "(a\<lparr>running := 0\<rparr>, pcs[i := AtClose])"
      have "running (fst ?st) \<noteq> 1" by simp
      moreover have o: "closes_owed ?st = 1"
        using c1 Cons.prems(2) by (simp add: closes_owed_def)
      ultimately obtain st' where r: "CloseAsync_run sched ?st = Some st'"
        "closes_owed st' = closes_owed ?st" "running (fst st') = 0"
        using CloseAsync_run_owed [of ?st sched] by auto
      with Call True at Cons.prems(1) o show ?thesis by simp
    qed
  qed
qed


lemma CloseAsync_run_total:
  assumes "closeChan a = ChanOpen"
  shows "\<exists>st'. CloseAsync_run sched (a, replicate n AtCAS) = Some st'
           \<and> closes_owed st' = (if running a = 1 \<and> wins_first n sched then 1 else 0)
           \<and> (running a = 1 \<and> wins_first n sched \<longrightarrow> running (fst st') = 0)"
proof (cases "running a = 1")
  case True
  have sub: "set (replicate n AtCAS) \<subseteq> {AtCAS}" by auto
  from CloseAsync_run_first [OF True assms sub, of sched] True
  show ?thesis by auto
next
  case False
  have "closes_owed (a, replicate n AtCAS) = 0"
    using assms by (auto simp: closes_owed_def count_list_0_iff)
  with CloseAsync_run_owed [of "(a, replicate n AtCAS)" sched] False
  show ?thesis by auto
qed

text \<open>
  C5, as the claim states it, fails. The transactions channel is closed, the loop returns
  and its deferred function stores 0 in \<open>running\<close>; \<open>CloseAsync\<close> is then called twice. No
  call wins the compare-and-swap, and \<open>closeChan\<close> is still open: it was closed zero
  times, not once.
\<close>

theorem CloseAsync_after_exit_closes_nothing:
  "map_option closeChan
     (Option.bind (exited_state (loop (NewAMQP zero_stats) (sample_script TransactionsChanClosed)))
        (CloseAsync_times 2))
     = Some ChanOpen"
  by (simp add: run_defs sample_defs AMQP_CloseAsync_def numeral_2_eq_2)


text \<open>
  C5, amended. From a state whose \<open>closeChan\<close> is open, calling \<open>CloseAsync\<close> any number of
  times closes \<open>closeChan\<close> at most once and never panics; it is closed exactly once when
  the flag is still 1 at the compare-and-swap of the first call, and not at all when it
  is not (the loop has already returned and stored 0). One after the other: \<open>n\<close> calls end
  in the state with \<open>running\<close> 0 and \<open>closeChan\<close> closed when the flag was 1 and \<open>n\<close> is not
  0, and leave the state as it was otherwise. Concurrently: for every schedule of the two
  steps of \<open>n\<close> calls, with the loop's deferred store of 0 falling anywhere among them, no
  step panics (a second \<open>close\<close> would); the closes owed (done, or won and still to be
  done) are exactly one when the flag was 1 at the start and the first step taken is the
  compare-and-swap of a call, before any store of the loop, and none otherwise; so, once
  every call has returned, \<open>closeChan\<close> is closed in the first case and open in the
  second. When the loop's store does not interfere at all, nothing but \<open>running\<close> and
  \<open>closeChan\<close> has changed.
\<close>

theorem CloseAsync_closes_at_most_once:
  assumes "closeChan a = ChanOpen"
  shows "CloseAsync_times n a
           = Some (if running a = 1 \<and> 0 < n then a\<lparr>running := 0, closeChan := ChanClosed\<rparr> else a)
       \<and> (\<exists>a' pcs'. CloseAsync_run sched (a, replicate n AtCAS) = Some (a', pcs')
            \<and> length pcs' = n
            \<and> closes_owed (a', pcs') = (if running a = 1 \<and> wins_first n sched then 1 else 0)
            \<and> (closeChan a' = ChanClosed \<longrightarrow> running a = 1 \<and> wins_first n sched)
            \<and> (set pcs' \<subseteq> {Returned} \<longrightarrow>
                 closeChan a'
                   = (if running a = 1 \<and> wins_first n sched then ChanClosed else ChanOpen))
            \<and> (running a = 1 \<and> wins_first n sched \<longrightarrow> running a' = 0)
            \<and> (0 < n \<and> set pcs' \<subseteq> {Returned} \<and> DeferredStore \<notin> set sched \<longrightarrow>
                 a' = (if running a = 1 then a\<lparr>running := 0, closeChan := ChanClosed\<rparr> else a)))"
proof
  show "CloseAsync_times n a
           = Some (if running a = 1 \<and> 0 < n then a\<lparr>running := 0, closeChan := ChanClosed\<rparr> else a)"
    using CloseAsync_times_result [OF assms] .
next
  from CloseAsync_run_inv [OF close_inv_start [OF assms, of False n], of sched]
  obtain a' pcs' where run: "CloseAsync_run sched (a, replicate n AtCAS) = Some (a', pcs')"
    and inv: "close_inv False a (a', pcs')" and len: "length pcs' = n"
    by auto
  from CloseAsync_run_total [OF assms, of sched n] run
  have owed: "closes_owed (a', pcs') = (if running a = 1 \<and> wins_first n sched then 1 else 0)"
    and zero: "running a = 1 \<and> wins_first n sched \<longrightarrow> running a' = 0"
    by auto
  have closed: "running a = 1 \<and> wins_first n sched" if "closeChan a' = ChanClosed"
    using owed that by (auto simp: closes_owed_def split: if_splits)
  have all_returned: "closeChan a' = (if running a = 1 \<and> wins_first n sched then ChanClosed else ChanOpen)"
    if "set pcs' \<subseteq> {Returned}"
  proof -
    from that have "count_list pcs' AtClose = 0"
      by (auto simp: count_list_0_iff)
    with owed show ?thesis
      by (cases "closeChan a'") (auto simp: closes_owed_def split: if_splits)
  qed
  have final: "a' = (if running a = 1 then a\<lparr>running := 0, closeChan := ChanClosed\<rparr> else a)"
    if "0 < n \<and> set pcs' \<subseteq> {Returned} \<and> DeferredStore \<notin> set sched"
  proof -
    from that have "\<not> (True \<and> DeferredStore \<in> set sched)" by simp
    from CloseAsync_run_inv [OF close_inv_start [OF assms, of True n] this] run
    have sinv: "close_inv True a (a', pcs')" by auto
    then have eq: "a\<lparr>running := 0, closeChan := ChanOpen\<rparr> = a'\<lparr>running := 0, closeChan := ChanOpen\<rparr>"
      by (simp add: close_inv_def)
    from that len obtain pc where "pc \<in> set pcs'" by (cases pcs') auto
    with that have nr: "running a' \<noteq> 1"
      using sinv by (auto simp: close_inv_def split: if_splits)
    from that have "count_list pcs' AtClose = 0"
      by (auto simp: count_list_0_iff)
    with sinv nr have r: "running a' = (if running a = 1 then 0 else running a)"
      and c: "closeChan a' = (if running a = 1 then ChanClosed else ChanOpen)"
      by (cases "closeChan a'"; auto simp: close_inv_def split: if_splits)+
    from eq r c assms show ?thesis
      by (cases a; cases a') (auto split: if_splits)
  qed
  from run len owed closed all_returned zero final
  show "\<exists>a' pcs'. CloseAsync_run sched (a, replicate n AtCAS) = Some (a', pcs')
            \<and> length pcs' = n
            \<and> closes_owed (a', pcs') = (if running a = 1 \<and> wins_first n sched then 1 else 0)
            \<and> (closeChan a' = ChanClosed \<longrightarrow> running a = 1 \<and> wins_first n sched)
            \<and> (set pcs' \<subseteq> {Returned} \<longrightarrow>
                 closeChan a'
                   = (if running a = 1 \<and> wins_first n sched then ChanClosed else ChanOpen))
            \<and> (running a = 1 \<and> wins_first n sched \<longrightarrow> running a' = 0)
            \<and> (0 < n \<and> set pcs' \<subseteq> {Returned} \<and> DeferredStore \<notin> set sched \<longrightarrow>
                 a' = (if running a = 1 then a\<lparr>running := 0, closeChan := ChanClosed\<rparr> else a))"
    by blast
qed

theorem CloseAsync_closes_at_most_once_witness:
  "closeChan (NewAMQP zero_stats) = ChanOpen
   \<and> CloseAsync_times 2 (NewAMQP zero_stats)
       = Some ((NewAMQP zero_stats)\<lparr>running := 0, closeChan := ChanClosed\<rparr>)
   \<and> CloseAsync_run [Call 0, Call 1, Call 0, Call 1] (NewAMQP zero_stats, replicate 2 AtCAS)
       = Some ((NewAMQP zero_stats)\<lparr>running := 0, closeChan := ChanClosed\<rparr>, [Returned, Returned])
   \<and> running (NewAMQP zero_stats) = 1
   \<and> wins_first 1 [Call 0, DeferredStore, Call 0]
   \<and> snd (the (CloseAsync_run [Call 0, DeferredStore, Call 0]
              (NewAMQP zero_stats, replicate 1 AtCAS))) = [Returned]
   \<and> closeChan (fst (the (CloseAsync_run [Call 0, DeferredStore, Call 0]
              (NewAMQP zero_stats, replicate 1 AtCAS)))) = ChanClosed
   \<and> \<not> wins_first 1 [DeferredStore, Call 0, Call 0]
   \<and> snd (the (CloseAsync_run [DeferredStore, Call 0, Call 0]
              (NewAMQP zero_stats, replicate 1 AtCAS))) = [Returned]
   \<and> closeChan (fst (the (CloseAsync_run [DeferredStore, Call 0, Call 0]
              (NewAMQP zero_stats, replicate 1 AtCAS)))) = ChanOpen"
proof -
  have h: "closeChan (NewAMQP zero_stats) = ChanOpen"
    by (simp add: NewAMQP_def)
  have r: "running (NewAMQP zero_stats) = 1"
    by (simp add: NewAMQP_def)
  note t = CloseAsync_closes_at_most_once [OF h, of 2 "[Call 0, Call 1, Call 0, Call 1]"]
  from t r have t1: "CloseAsync_times 2 (NewAMQP zero_stats)
       = Some ((NewAMQP zero_stats)\<lparr>running := 0, closeChan := ChanClosed\<rparr>)"
    by simp
  have e: "snd (the (CloseAsync_run [Call 0, Call 1, Call 0, Call 1]
             (NewAMQP zero_stats, replicate 2 AtCAS))) = [Returned, Returned]"
    by (simp add: NewAMQP_def numeral_2_eq_2)
  from t [THEN conjunct2] r e
  have t2: "CloseAsync_run [Call 0, Call 1, Call 0, Call 1] (NewAMQP zero_stats, replicate 2 AtCAS)
       = Some ((NewAMQP zero_stats)\<lparr>running := 0, closeChan := ChanClosed\<rparr>, [Returned, Returned])"
    by auto
  have w3: "wins_first 1 [Call 0, DeferredStore, Call 0]"
    by simp
  have e3: "snd (the (CloseAsync_run [Call 0, DeferredStore, Call 0]
              (NewAMQP zero_stats, replicate 1 AtCAS))) = [Returned]"
    by (simp add: NewAMQP_def)
  from CloseAsync_closes_at_most_once [OF h, of 1 "[Call 0, DeferredStore, Call 0]",
      THEN conjunct2] r w3 e3
  have t3: "closeChan (fst (the (CloseAsync_run [Call 0, DeferredStore, Call 0]
              (NewAMQP zero_stats, replicate 1 AtCAS)))) = ChanClosed"
    by auto
  have w4: "\<not> wins_first 1 [DeferredStore, Call 0, Call 0]"
    by simp
  have e4: "snd (the (CloseAsync_run [DeferredStore, Call 0, Call 0]
              (NewAMQP zero_stats, replicate 1 AtCAS))) = [Returned]"
    by (simp add: NewAMQP_def)
  from CloseAsync_closes_at_most_once [OF h, of 1 "[DeferredStore, Call 0, Call 0]",
      THEN conjunct2] r w4 e4
  have t4: "closeChan (fst (the (CloseAsync_run [DeferredStore, Call 0, Call 0]
              (NewAMQP zero_stats, replicate 1 AtCAS)))) = ChanOpen"
    by auto
  from h t1 t2 r w3 e3 t3 w4 e4 t4 show ?thesis by blast
qed

section \<open>WaitForClose\<close>

lemma StillRunning_open:
  "closedChan a = ChanOpen \<Longrightarrow> loop a s = StillRunning a' \<Longrightarrow> closedChan a' = ChanOpen"
  using loop_body_frame [of a s]
  by (cases "loop_body a s") (auto simp: loop_def split: option.splits)

text \<open>
  C4, as the claim states it, fails for the websocket input: its \<open>WaitForClose\<close>, called
  with timeout 0 on an input that has no connection, returns nil, not \<open>ErrTimeout\<close>.
\<close>

theorem Websocket_WaitForClose_no_timeout:
  "Websocket_WaitForClose NewWebsocket 0 = None
   \<and> Websocket_WaitForClose NewWebsocket 0 \<noteq> Some ErrTimeout"
  by (simp add: Websocket_WaitForClose_def)

text \<open>
  C4, amended. \<open>WaitForClose\<close> of the AMQP output returns \<open>ErrTimeout\<close> exactly when its
  select takes the timer and nil exactly when it takes \<open>closedChan\<close>; it takes whichever is
  ready first: nil when \<open>closedChan\<close> is closed before the timeout elapses, \<open>ErrTimeout\<close>
  when the timeout elapses before \<open>closedChan\<close> is closed, or when it is never closed. In
  particular, with timeout 0 and \<open>closedChan\<close> open at the call it returns \<open>ErrTimeout\<close>,
  and \<open>closedChan\<close> is open as long as the loop has not returned (while it is still
  connecting, for one). \<open>WaitForClose\<close> of the websocket input waits for nothing and
  returns nil for every timeout.
\<close>

theorem WaitForClose_timeout:
  "(AMQP_WaitForClose a closes_after timeout tie = Some ErrTimeout
      \<longleftrightarrow> WaitForClose_select (closed_tick a closes_after) timeout tie = TimeoutElapsed)
   \<and> (AMQP_WaitForClose a closes_after timeout tie = None
      \<longleftrightarrow> WaitForClose_select (closed_tick a closes_after) timeout tie = ClosedSignal)
   \<and> (closed_tick a closes_after = Some t \<and> t < nat timeout \<longrightarrow>
        AMQP_WaitForClose a closes_after timeout tie = None)
   \<and> (closed_tick a closes_after = Some t \<and> nat timeout < t \<longrightarrow>
        AMQP_WaitForClose a closes_after timeout tie = Some ErrTimeout)
   \<and> (closed_tick a closes_after = None \<longrightarrow>
        AMQP_WaitForClose a closes_after timeout tie = Some ErrTimeout)
   \<and> (closedChan a = ChanOpen \<longrightarrow> AMQP_WaitForClose a closes_after 0 tie = Some ErrTimeout)
   \<and> (closedChan a = ChanOpen \<and> loop a s = StillRunning a' \<longrightarrow>
        AMQP_WaitForClose a' closes_after 0 tie = Some ErrTimeout)
   \<and> Websocket_WaitForClose w timeout = None"
  using StillRunning_open [of a s a']
  by (cases closes_after)
     (auto simp: AMQP_WaitForClose_def WaitForClose_select_def closed_tick_def
        Websocket_WaitForClose_def split: wait_ev.splits option.splits chan.splits)


theorem WaitForClose_timeout_witness:
  "closedChan (NewAMQP zero_stats) = ChanOpen
   \<and> AMQP_WaitForClose (NewAMQP zero_stats) (Some 3) 0 True = Some ErrTimeout
   \<and> closed_tick (NewAMQP zero_stats) (Some 3) = Some 4
   \<and> (4::nat) < nat 10
   \<and> AMQP_WaitForClose (NewAMQP zero_stats) (Some 3) 10 False = None
   \<and> nat 2 < (4::nat)
   \<and> AMQP_WaitForClose (NewAMQP zero_stats) (Some 3) 2 True = Some ErrTimeout
   \<and> closed_tick (NewAMQP zero_stats) None = None
   \<and> AMQP_WaitForClose (NewAMQP zero_stats) None 10 True = Some ErrTimeout
   \<and> loop (NewAMQP zero_stats) still_connecting
       = StillRunning (flow_state (loop_body (NewAMQP zero_stats) still_connecting))
   \<and> AMQP_WaitForClose (flow_state (loop_body (NewAMQP zero_stats) still_connecting))
         (Some 3) 0 True = Some ErrTimeout"
proof -
  have h5: "closedChan (NewAMQP zero_stats) = ChanOpen
      \<and> loop (NewAMQP zero_stats) still_connecting
          = StillRunning (flow_state (loop_body (NewAMQP zero_stats) still_connecting))"
    by (simp add: still_connecting_def loop_def loop_body_def NewAMQP_def Incr_def)
  note t5 = WaitForClose_timeout [of "NewAMQP zero_stats" "Some 3" _ True _ still_connecting
      "flow_state (loop_body (NewAMQP zero_stats) still_connecting)",
      THEN conjunct2, THEN conjunct2, THEN conjunct2, THEN conjunct2, THEN conjunct2,
      THEN conjunct2, THEN conjunct1, rule_format, OF h5]
  have h1: "closedChan (NewAMQP zero_stats) = ChanOpen"
    by (simp add: NewAMQP_def)
  have h2: "closed_tick (NewAMQP zero_stats) (Some 3) = Some 4 \<and> (4::nat) < nat 10"
    by (simp add: closed_tick_def NewAMQP_def)
  have h3: "closed_tick (NewAMQP zero_stats) (Some 3) = Some 4 \<and> nat 2 < (4::nat)"
    by (simp add: closed_tick_def NewAMQP_def)
  have h4: "closed_tick (NewAMQP zero_stats) None = None"
    by (simp add: closed_tick_def NewAMQP_def)
  note t1 = WaitForClose_timeout [of "NewAMQP zero_stats" "Some 3" 0 True,
      THEN conjunct2, THEN conjunct2, THEN conjunct2, THEN conjunct2, THEN conjunct2,
      THEN conjunct1, rule_format, OF h1]
  note t2 = WaitForClose_timeout [of "NewAMQP zero_stats" "Some 3" 10 False 4,
      THEN conjunct2, THEN conjunct2, THEN conjunct1, rule_format, OF h2]
  note t3 = WaitForClose_timeout [of "NewAMQP zero_stats" "Some 3" 2 True 4,
      THEN conjunct2, THEN conjunct2, THEN conjunct2, THEN conjunct1, rule_format, OF h3]
  note t4 = WaitForClose_timeout [of "NewAMQP zero_stats" None 10 True,
      THEN conjunct2, THEN conjunct2, THEN conjunct2, THEN conjunct2,
      THEN conjunct1, rule_format, OF h4]
  from h1 t1 h2 t2 h3 t3 h4 t4 h5 t5 show ?thesis by blast
qed

end
